theory Spec2Isabelle
  imports Main
begin

section \<open>Python dictionaries\<close>

text \<open>
  A Python \<open>dict\<close> keeps its keys in insertion order. It is modelled as an association
  list whose order is the insertion order. Assigning to a key that is present replaces
  the value where the key stands; assigning to a new key appends it.
\<close>

type_synonym 'v pydict = "(string \<times> 'v) list"

fun dict_set :: "string \<Rightarrow> 'v \<Rightarrow> 'v pydict \<Rightarrow> 'v pydict" where
  "dict_set k v [] = [(k, v)]"
| "dict_set k v ((k', v') # d) =
     (if k = k' then (k', v) # d else (k', v') # dict_set k v d)"

text \<open>\<open>d.update(other)\<close>: every item of \<open>other\<close>, in its order, is assigned into \<open>d\<close>.\<close>

definition dict_update :: "'v pydict \<Rightarrow> 'v pydict \<Rightarrow> 'v pydict" where
  "dict_update d other = foldl (\<lambda>acc (k, v). dict_set k v acc) d other"

text \<open>\<open>d.get(k)\<close>.\<close>

definition dict_get :: "'v pydict \<Rightarrow> string \<Rightarrow> 'v option" where
  "dict_get d k = map_of d k"

subsection \<open>Properties of dictionary updates\<close>

lemma map_of_dict_set: "map_of (dict_set k v d) = (map_of d)(k \<mapsto> v)"
  by (induction d) (auto simp: fun_eq_iff)

lemma map_fst_dict_set:
  "map fst (dict_set k v d) = (if k \<in> fst ` set d then map fst d else map fst d @ [k])"
  by (induction k v d rule: dict_set.induct) (auto simp: rev_image_eqI)

lemma distinct_dict_set: "distinct (map fst d) \<Longrightarrow> distinct (map fst (dict_set k v d))"
  by (simp add: map_fst_dict_set)

lemma dict_update_Nil [simp]: "dict_update d [] = d"
  by (simp add: dict_update_def)

lemma dict_update_Cons: "dict_update d ((k, v) # other) = dict_update (dict_set k v d) other"
  by (simp add: dict_update_def)

lemma map_of_dict_update_absent:
  "k \<notin> fst ` set other \<Longrightarrow> map_of (dict_update d other) k = map_of d k"
  by (induction other arbitrary: d) (auto simp: dict_update_Cons map_of_dict_set)

lemma map_of_dict_update_present:
  "distinct (map fst other) \<Longrightarrow> map_of other k = Some v \<Longrightarrow> map_of (dict_update d other) k = Some v"
proof (induction other arbitrary: d)
  case Nil
  then show ?case by simp
next
  case (Cons a other)
  obtain k' v' where a: "a = (k', v')" by (cases a)
  show ?case
  proof (cases "k = k'")
    case True
    with Cons.prems a have "v' = v" "k \<notin> fst ` set other" by auto
    then show ?thesis using a True
      by (simp add: dict_update_Cons map_of_dict_update_absent map_of_dict_set)
  next
    case False
    with Cons a show ?thesis by (simp add: dict_update_Cons)
  qed
qed

lemma distinct_dict_update:
  "distinct (map fst d) \<Longrightarrow> distinct (map fst (dict_update d other))"
  by (induction other arbitrary: d) (auto simp: dict_update_Cons distinct_dict_set)

lemma dict_set_new: "k \<notin> fst ` set d \<Longrightarrow> dict_set k v d = d @ [(k, v)]"
  by (induction k v d rule: dict_set.induct) auto

lemma dict_update_append_new:
  "distinct (map fst other) \<Longrightarrow> fst ` set other \<inter> fst ` set d = {} \<Longrightarrow> dict_update d other = d @ other"
proof (induction other arbitrary: d)
  case Nil
  then show ?case by simp
next
  case (Cons a other)
  obtain k v where a: "a = (k, v)" by (cases a)
  from Cons.prems a have "dict_set k v d = d @ [(k, v)]" by (intro dict_set_new) auto
  moreover from Cons.prems a have "dict_update (d @ [(k, v)]) other = (d @ [(k, v)]) @ other"
    by (intro Cons.IH) auto
  ultimately show ?case using a by (simp add: dict_update_Cons)
qed

section \<open>The spec expander: \<open>expand_specs\<close>\<close>

text \<open>
  \<open>itertools.product(*pools)\<close>, following the equivalent code of the Python
  documentation:
  \<^verbatim>\<open>
    result = [[]]
    for pool in pools:
        result = [x+[y] for x in result for y in pool]
  \<close>
\<close>

definition itertools_product :: "'a list list \<Rightarrow> 'a list list" where
  "itertools_product pools =
     foldl (\<lambda>result pool. concat (map (\<lambda>x. map (\<lambda>y. x @ [y]) pool) result)) [[]] pools"

text \<open>
  \<^verbatim>\<open>
    def expand_specs(specs):
        all_vals = []
        for name, vals in specs.items():
            all_vals.append([(name, val) for val in vals])
        all_vals = itertools.product(*all_vals)
        return all_vals
  \<close>
\<close>

definition expand_specs :: "'v list pydict \<Rightarrow> (string \<times> 'v) list list" where
  "expand_specs specs =
     itertools_product (map (\<lambda>(name, vals). map (\<lambda>val. (name, val)) vals) specs)"

subsection \<open>Properties of the product\<close>

lemma append_snoc_fun: "(@) (a @ [x]) = (\<lambda>ys. a @ x # ys)"
  by (rule ext) simp

lemma append_Nil_fun: "(@) [] = (\<lambda>ys. ys)"
  by (rule ext) simp

lemma product_foldl_gen:
  "foldl (\<lambda>result pool. concat (map (\<lambda>x. map (\<lambda>y. x @ [y]) pool) result)) res pools =
   concat (map (\<lambda>x. map (\<lambda>ys. x @ ys) (product_lists pools)) res)"
proof (induction pools arbitrary: res)
  case Nil
  then show ?case by (induction res) simp_all
next
  case (Cons pool pools)
  have "concat (map (\<lambda>x. map (\<lambda>ys. x @ ys) (product_lists pools))
          (concat (map (\<lambda>x. map (\<lambda>y. x @ [y]) pool) res))) =
        concat (map (\<lambda>x. map (\<lambda>ys. x @ ys) (product_lists (pool # pools))) res)"
    by (induction res) (simp_all add: map_concat comp_def append_snoc_fun)
  with Cons.IH show ?case by simp
qed

lemma itertools_product_eq: "itertools_product pools = product_lists pools"
  by (simp add: itertools_product_def product_foldl_gen append_Nil_fun)

lemma length_product_lists_prod:
  "length (product_lists pools) = prod_list (map length pools)"
  by (induction pools) (simp_all add: length_concat comp_def sum_list_triv)

lemma expand_specs_length:
  "length (expand_specs specs) = prod_list (map (\<lambda>(name, vals). length vals) specs)"
proof -
  have "prod_list (map length (map (\<lambda>(name, vals). map (\<lambda>val. (name, val)) vals) specs)) =
        prod_list (map (\<lambda>(name, vals). length vals) specs)"
    by (induction specs) (auto simp: split_def)
  then show ?thesis
    by (simp only: expand_specs_def itertools_product_eq length_product_lists_prod)
qed

lemma expand_specs_member:
  assumes "c \<in> set (expand_specs specs)"
  shows "map fst c = map fst specs \<and>
         list_all2 (\<lambda>(n, v) (n', vals). n = n' \<and> v \<in> set vals) c specs"
proof -
  from assms have "list_all2 (\<lambda>x ys. x \<in> set ys) c
      (map (\<lambda>(name, vals). map (\<lambda>val. (name, val)) vals) specs)"
    by (simp add: expand_specs_def itertools_product_eq product_lists_set)
  then have *: "list_all2 (\<lambda>(n, v) (n', vals). n = n' \<and> v \<in> set vals) c specs"
    by (auto simp: list_all2_map2 elim!: list_all2_mono)
  then have "map fst c = map fst specs"
    by (induction rule: list_all2_induct) auto
  with * show ?thesis by simp
qed

lemma expand_specs_Nil: "expand_specs [] = [[]]"
  by (simp add: expand_specs_def itertools_product_def)

text \<open>
  Claim C7. The spec expander produces as many combinations as the product of the
  lengths of the candidate lists; every combination lists the axes in the insertion order
  of the mapping, each axis paired with one of its own candidates; and the empty mapping
  gives exactly one combination, the empty one.
\<close>

theorem expand_specs_count_and_shape:
  "length (expand_specs specs) = prod_list (map (\<lambda>(name, vals). length vals) specs) \<and>
   (\<forall>c \<in> set (expand_specs specs).
      map fst c = map fst specs \<and>
      list_all2 (\<lambda>(n, v) (n', vals). n = n' \<and> v \<in> set vals) c specs) \<and>
   expand_specs ([] :: 'v list pydict) = [[]]"
  using expand_specs_length [of specs] expand_specs_member [of _ specs]
    expand_specs_Nil by blast

text \<open>
  Two axes with two and three candidates: six combinations, each naming \<open>X\<close> before
  \<open>Y\<close>.
\<close>

theorem expand_specs_count_and_shape_witness:
  "length (expand_specs [(''X'', [''X0'', ''X1'']), (''Y'', [''Y0'', ''Y1'', ''Y2''])]) = 6 \<and>
   [(''X'', ''X1''), (''Y'', ''Y0'')]
     \<in> set (expand_specs [(''X'', [''X0'', ''X1'']), (''Y'', [''Y0'', ''Y1'', ''Y2''])]) \<and>
   map fst [(''X'', ''X1''), (''Y'', ''Y0'')] = [''X'', ''Y'']"
  using expand_specs_count_and_shape
    [of "[(''X'', [''X0'', ''X1'']), (''Y'', [''Y0'', ''Y1'', ''Y2''])]"]
  by (simp add: expand_specs_def itertools_product_def)

section \<open>Environment nodes and the store of dictionaries\<close>

text \<open>
  The class \<open>Venv\<close> declares its fields with \<open>attr.ib(default=[])\<close> and
  \<open>attr.ib(default={})\<close>. Such a default is one object, made when the class is defined,
  and the generated constructor binds that same object in every node built without the
  argument. \<open>resolve\<close> updates the dictionaries of a node built by \<open>Venv()\<close> in place,
  so the dictionaries live in a store and a node holds references into it:
  \<open>Default\<close> is the dictionary of the class-level default, \<open>Own n\<close> a dictionary the
  configuration passed to the constructor. The store has one heap for the \<open>pkgs\<close>
  dictionaries and one for the \<open>env\<close> dictionaries, each with its own default object.
  The lists \<open>pys\<close> and \<open>venvs\<close> are never changed in place (\<open>venv.pys = parent.pys\<close>
  rebinds the field), so they are plain values.
\<close>

datatype ref = Default | Own nat

text \<open>
  A candidate of an \<open>env\<close> axis is a literal (a string or \<open>None\<close>) or a callable,
  applied in \<open>Session.run\<close> to the selected package versions; the call returns a string
  or \<open>None\<close>, or raises.
\<close>

datatype call_result = Returns "string option" | Raises

datatype env_val = Literal "string option" | Callable "string pydict \<Rightarrow> call_result"

record store =
  pkgs_heap :: "ref \<Rightarrow> string option list pydict"
  env_heap :: "ref \<Rightarrow> env_val list pydict"

text \<open>
  \<^verbatim>\<open>
    @attr.s
    class Venv:
        name: t.Optional[str] = attr.ib(default=None)
        command: t.Optional[str] = attr.ib(default=None)
        pys: t.List[float] = attr.ib(default=[])
        pkgs: t.Dict[str, t.List[str]] = attr.ib(default={})
        env: t.Dict[str, t.List[str]] = attr.ib(default={})
        venvs: t.List["Venv"] = attr.ib(default=[])
  \<close>
  The interpreter versions are values of a type \<open>'py\<close>: the code compares them and prints
  them with \<open>str\<close>, nothing else.
\<close>

datatype 'py Venv =
  Venv (name: "string option") (command: "string option") (pys: "'py list")
       (pkgs: ref) (env: ref) (venvs: "'py Venv list")

text \<open>\<open>Venv()\<close>: every field is the default of the class.\<close>

definition Venv_new :: "'py Venv" where
  "Venv_new = Venv None None [] Default Default []"

text \<open>The truth value of an optional string: \<open>None\<close> and \<open>""\<close> are false.\<close>

definition truthy :: "string option \<Rightarrow> bool" where
  "truthy s = (case s of None \<Rightarrow> False | Some x \<Rightarrow> x \<noteq> [])"

definition set_name :: "string option \<Rightarrow> 'py Venv \<Rightarrow> 'py Venv" where
  "set_name v venv = Venv v (command venv) (pys venv) (pkgs venv) (env venv) (venvs venv)"

definition set_pys :: "'py list \<Rightarrow> 'py Venv \<Rightarrow> 'py Venv" where
  "set_pys v venv = Venv (name venv) (command venv) v (pkgs venv) (env venv) (venvs venv)"

definition set_command :: "string option \<Rightarrow> 'py Venv \<Rightarrow> 'py Venv" where
  "set_command v venv = Venv (name venv) v (pys venv) (pkgs venv) (env venv) (venvs venv)"

text \<open>
  \<open>target.update(source)\<close> on two dictionaries of a heap. When both references name the
  same object, \<open>a.update(a)\<close> leaves the dictionary as it is.
\<close>

definition heap_update :: "(ref \<Rightarrow> 'v pydict) \<Rightarrow> ref \<Rightarrow> ref \<Rightarrow> (ref \<Rightarrow> 'v pydict)" where
  "heap_update h target source =
     (if target = source then h else h(target := dict_update (h target) (h source)))"

text \<open>
  \<^verbatim>\<open>
    def resolve(self, parents):
        if not parents:
            return self
        else:
            venv = Venv()
            for parent in parents + [self]:
                if parent.name:
                    venv.name = parent.name
                if parent.pys:
                    venv.pys = parent.pys
                if parent.command:
                    venv.command = parent.command
                venv.env.update(parent.env)
                venv.pkgs.update(parent.pkgs)
            return venv
  \<close>
  \<open>resolve_loop\<close> is the \<open>for\<close> loop, \<open>resolve_body\<close> one pass through its body.
\<close>

definition resolve_body :: "'py Venv \<Rightarrow> 'py Venv \<Rightarrow> store \<Rightarrow> 'py Venv \<times> store" where
  "resolve_body parent venv st =
     (let venv1 = (if truthy (name parent) then set_name (name parent) venv else venv);
          venv2 = (if pys parent \<noteq> [] then set_pys (pys parent) venv1 else venv1);
          venv3 = (if truthy (command parent) then set_command (command parent) venv2 else venv2);
          st1 = st\<lparr>env_heap := heap_update (env_heap st) (env venv3) (env parent)\<rparr>;
          st2 = st1\<lparr>pkgs_heap := heap_update (pkgs_heap st1) (pkgs venv3) (pkgs parent)\<rparr>
      in (venv3, st2))"

fun resolve_loop :: "'py Venv list \<Rightarrow> 'py Venv \<Rightarrow> store \<Rightarrow> 'py Venv \<times> store" where
  "resolve_loop [] venv st = (venv, st)"
| "resolve_loop (parent # rest) venv st =
     (case resolve_body parent venv st of (venv', st') \<Rightarrow> resolve_loop rest venv' st')"

definition resolve :: "'py Venv \<Rightarrow> 'py Venv list \<Rightarrow> store \<Rightarrow> 'py Venv \<times> store" where
  "resolve self parents st =
     (if parents = [] then (self, st)
      else resolve_loop (parents @ [self]) Venv_new st)"

subsection \<open>What the loop of \<open>resolve\<close> computes\<close>

text \<open>
  \<open>last_where ok dflt xs\<close> is the last element of \<open>xs\<close> that satisfies \<open>ok\<close>, and
  \<open>dflt\<close> when there is none.
\<close>

definition last_where :: "('a \<Rightarrow> bool) \<Rightarrow> 'a \<Rightarrow> 'a list \<Rightarrow> 'a" where
  "last_where ok dflt xs = (case filter ok xs of [] \<Rightarrow> dflt | y # ys \<Rightarrow> last (y # ys))"

lemma last_where_Nil [simp]: "last_where ok dflt [] = dflt"
  by (simp add: last_where_def)

lemma last_where_Cons:
  "last_where ok dflt (x # xs) = last_where ok (if ok x then x else dflt) xs"
  by (simp add: last_where_def split: list.splits)

lemma resolve_body_fields:
  "Venv.name (fst (resolve_body p venv st)) = (if truthy (Venv.name p) then Venv.name p else Venv.name venv)"
  "pys (fst (resolve_body p venv st)) = (if pys p \<noteq> [] then pys p else pys venv)"
  "Venv.command (fst (resolve_body p venv st)) =
     (if truthy (Venv.command p) then Venv.command p else Venv.command venv)"
  "Venv.pkgs (fst (resolve_body p venv st)) = Venv.pkgs venv"
  "Venv.env (fst (resolve_body p venv st)) = Venv.env venv"
  "venvs (fst (resolve_body p venv st)) = venvs venv"
  by (simp_all add: resolve_body_def Let_def set_name_def set_pys_def set_command_def)

lemma resolve_body_heaps:
  "pkgs_heap (snd (resolve_body p venv st)) =
     heap_update (pkgs_heap st) (Venv.pkgs venv) (Venv.pkgs p)"
  "env_heap (snd (resolve_body p venv st)) =
     heap_update (env_heap st) (Venv.env venv) (Venv.env p)"
  by (simp_all add: resolve_body_def Let_def set_name_def set_pys_def set_command_def)

lemma resolve_loop_Cons:
  "resolve_loop (p # rest) venv st =
     resolve_loop rest (fst (resolve_body p venv st)) (snd (resolve_body p venv st))"
  by (simp add: case_prod_beta)

lemma resolve_loop_refs:
  "Venv.pkgs (fst (resolve_loop chain venv st)) = Venv.pkgs venv"
  "Venv.env (fst (resolve_loop chain venv st)) = Venv.env venv"
  "venvs (fst (resolve_loop chain venv st)) = venvs venv"
  by (induction chain arbitrary: venv st; simp add: resolve_loop_Cons resolve_body_fields del: resolve_loop.simps(2))+

lemma resolve_loop_name:
  "Venv.name (fst (resolve_loop chain venv st)) =
     last_where truthy (Venv.name venv) (map Venv.name chain)"
  by (induction chain arbitrary: venv st)
     (simp_all add: resolve_loop_Cons resolve_body_fields last_where_Cons del: resolve_loop.simps(2))

lemma resolve_loop_command:
  "Venv.command (fst (resolve_loop chain venv st)) =
     last_where truthy (Venv.command venv) (map Venv.command chain)"
  by (induction chain arbitrary: venv st)
     (simp_all add: resolve_loop_Cons resolve_body_fields last_where_Cons del: resolve_loop.simps(2))

lemma resolve_loop_pys:
  "pys (fst (resolve_loop chain venv st)) = last_where (\<lambda>p. p \<noteq> []) (pys venv) (map pys chain)"
  by (induction chain arbitrary: venv st)
     (simp_all add: resolve_loop_Cons resolve_body_fields last_where_Cons del: resolve_loop.simps(2))

lemma resolve_loop_pkgs_heap:
  "pkgs_heap (snd (resolve_loop chain venv st)) =
     foldl (\<lambda>h p. heap_update h (Venv.pkgs venv) (Venv.pkgs p)) (pkgs_heap st) chain"
  by (induction chain arbitrary: venv st)
     (simp_all add: resolve_loop_Cons resolve_body_fields resolve_body_heaps del: resolve_loop.simps(2))

lemma resolve_loop_env_heap:
  "env_heap (snd (resolve_loop chain venv st)) =
     foldl (\<lambda>h p. heap_update h (Venv.env venv) (Venv.env p)) (env_heap st) chain"
  by (induction chain arbitrary: venv st)
     (simp_all add: resolve_loop_Cons resolve_body_fields resolve_body_heaps del: resolve_loop.simps(2))

lemma heap_updates_frame:
  "r \<noteq> t \<Longrightarrow> foldl (\<lambda>h p. heap_update h t (src p)) h chain r = h r"
  by (induction chain arbitrary: h) (simp_all add: heap_update_def)

lemma heap_updates_target:
  "foldl (\<lambda>h p. heap_update h t (src p)) h chain t =
   foldl (\<lambda>d p. if src p = t then d else dict_update d (h (src p))) (h t) chain"
proof (induction chain arbitrary: h)
  case Nil
  then show ?case by simp
next
  case (Cons p chain)
  let ?h' = "heap_update h t (src p)"
  have same: "src q \<noteq> t \<Longrightarrow> ?h' (src q) = h (src q)" for q
    by (simp add: heap_update_def)
  have "foldl (\<lambda>d q. if src q = t then d else dict_update d (?h' (src q))) (?h' t) chain =
        foldl (\<lambda>d q. if src q = t then d else dict_update d (h (src q))) (?h' t) chain"
    by (rule foldl_cong) (simp_all add: same)
  with Cons.IH [of ?h'] show ?case
    by (simp add: heap_update_def)
qed

section \<open>Instances and their enumeration\<close>

text \<open>
  \<^verbatim>\<open>
    @attr.s
    class VenvInstance:
        name: t.Optional[str] = attr.ib()
        py: float = attr.ib()
        command: str = attr.ib()
        env: t.List[t.Tuple[str, str]] = attr.ib()
        pkgs: t.List[t.Tuple[str, str]] = attr.ib()
  \<close>
\<close>

record 'py VenvInstance =
  name :: "string option"
  py :: 'py
  command :: string
  env :: "(string \<times> env_val) list"
  pkgs :: "(string \<times> string option) list"

text \<open>
  The three nested loops at the end of \<open>Venv.instances\<close>, with \<open>cmd\<close> the command of
  the resolved node:
  \<^verbatim>\<open>
    for env in expand_specs(resolved.env):
        for py in resolved.pys:
            for pkgs in expand_specs(resolved.pkgs):
                yield VenvInstance(name=resolved.name, command=resolved.command,
                                   py=py, env=env, pkgs=pkgs)
  \<close>
\<close>

definition expand_venv :: "'py Venv \<Rightarrow> string \<Rightarrow> store \<Rightarrow> 'py VenvInstance list" where
  "expand_venv resolved cmd st =
     concat (map (\<lambda>env'.
       concat (map (\<lambda>py'.
         map (\<lambda>pkgs'.
           \<lparr>VenvInstance.name = Venv.name resolved, py = py', command = cmd,
            env = env', pkgs = pkgs'\<rparr>)
           (expand_specs (pkgs_heap st (Venv.pkgs resolved))))
         (pys resolved)))
       (expand_specs (env_heap st (Venv.env resolved))))"

text \<open>
  \<^verbatim>\<open>
    def instances(self, pattern, parents=[]):
        for venv in self.venvs:
            if venv.name and not pattern.match(venv.name):
                continue
            else:
                for inst in venv.instances(parents=parents + [self], pattern=pattern):
                    if inst:
                        yield inst
        else:
            resolved = self.resolve(parents)
            if not resolved.command or not resolved.pys:
                return
            (the three loops above)
  \<close>
  The pattern is the predicate \<open>pattern.match\<close> on names. The loop has no \<open>break\<close>, so
  its \<open>else\<close> branch always runs, after the loop. An instance is an \<open>attrs\<close> object
  without \<open>__bool__\<close> or \<open>__len__\<close>, so \<open>if inst\<close> holds. The generator is consumed
  in order and nothing else touches the store while it runs, so the model returns the
  list of yielded instances and the store left behind. \<open>instances_venvs\<close> is the loop
  over \<open>self.venvs\<close>, from a given child on.
\<close>

definition skipped :: "(string \<Rightarrow> bool) \<Rightarrow> 'py Venv \<Rightarrow> bool" where
  "skipped pattern venv =
     (case Venv.name venv of None \<Rightarrow> False | Some n \<Rightarrow> n \<noteq> [] \<and> \<not> pattern n)"

fun instances ::
    "(string \<Rightarrow> bool) \<Rightarrow> 'py Venv list \<Rightarrow> 'py Venv \<Rightarrow> store \<Rightarrow> 'py VenvInstance list \<times> store"
  and instances_venvs ::
    "(string \<Rightarrow> bool) \<Rightarrow> 'py Venv list \<Rightarrow> 'py Venv list \<Rightarrow> store \<Rightarrow> 'py VenvInstance list \<times> store"
where
  "instances pattern parents (Venv n c p k e vs) st =
     (case instances_venvs pattern (parents @ [Venv n c p k e vs]) vs st of (yielded, st1) \<Rightarrow>
      case resolve (Venv n c p k e vs) parents st1 of (resolved, st2) \<Rightarrow>
        (case Venv.command resolved of
           None \<Rightarrow> (yielded, st2)
         | Some cmd \<Rightarrow>
             if cmd = [] \<or> pys resolved = [] then (yielded, st2)
             else (yielded @ expand_venv resolved cmd st2, st2)))"
| "instances_venvs pattern chain [] st = ([], st)"
| "instances_venvs pattern chain (venv # rest) st =
     (if skipped pattern venv then instances_venvs pattern chain rest st
      else case instances pattern chain venv st of (yielded, st1) \<Rightarrow>
           case instances_venvs pattern chain rest st1 of (yielded', st2) \<Rightarrow>
             (yielded @ yielded', st2))"

subsection \<open>The structure of the enumeration\<close>

text \<open>
  \<open>own_instances\<close> is the part of \<open>instances\<close> after the loop over the children: what
  the node yields from its own resolved form.
\<close>

definition own_instances :: "'py Venv \<Rightarrow> store \<Rightarrow> 'py VenvInstance list" where
  "own_instances resolved st =
     (case Venv.command resolved of
        None \<Rightarrow> []
      | Some cmd \<Rightarrow> if cmd = [] \<or> pys resolved = [] then [] else expand_venv resolved cmd st)"

lemma instances_unfold:
  "instances pattern parents self st =
     (let ch = instances_venvs pattern (parents @ [self]) (venvs self) st;
          rs = resolve self parents (snd ch)
      in (fst ch @ own_instances (fst rs) (snd rs), snd rs))"
  by (cases self) (simp add: case_prod_beta Let_def own_instances_def split: option.splits)

lemma instances_venvs_Cons:
  "instances_venvs pattern chain (venv # rest) st =
     (if skipped pattern venv then instances_venvs pattern chain rest st
      else (fst (instances pattern chain venv st) @
              fst (instances_venvs pattern chain rest (snd (instances pattern chain venv st))),
            snd (instances_venvs pattern chain rest (snd (instances pattern chain venv st)))))"
  by (simp add: case_prod_beta)

lemma instances_venvs_append:
  "instances_venvs pattern chain (vs1 @ vs2) st =
     (fst (instances_venvs pattern chain vs1 st) @
        fst (instances_venvs pattern chain vs2 (snd (instances_venvs pattern chain vs1 st))),
      snd (instances_venvs pattern chain vs2 (snd (instances_venvs pattern chain vs1 st))))"
  by (induction vs1 arbitrary: st)
     (simp_all add: instances_venvs_Cons del: instances_venvs.simps(2))

lemma instances_venvs_skip:
  "skipped pattern venv \<Longrightarrow>
   instances_venvs pattern chain (vs1 @ venv # vs2) st = instances_venvs pattern chain (vs1 @ vs2) st"
  by (simp add: instances_venvs_append [of _ _ vs1] instances_venvs_Cons del: instances_venvs.simps(2))

definition fields_eq :: "'py Venv \<Rightarrow> 'py Venv \<Rightarrow> bool" where
  "fields_eq a b \<longleftrightarrow>
     Venv.name a = Venv.name b \<and> Venv.command a = Venv.command b \<and> pys a = pys b \<and>
     Venv.pkgs a = Venv.pkgs b \<and> Venv.env a = Venv.env b"

lemma fields_eq_refl [simp]: "fields_eq a a"
  by (simp add: fields_eq_def)

lemma resolve_body_fields_eq:
  "fields_eq p p' \<Longrightarrow> resolve_body p venv st = resolve_body p' venv st"
  by (simp add: fields_eq_def resolve_body_def)

lemma resolve_loop_fields_eq:
  "list_all2 fields_eq chain chain' \<Longrightarrow> resolve_loop chain venv st = resolve_loop chain' venv st"
proof (induction chain chain' arbitrary: venv st rule: list_all2_induct)
  case Nil
  then show ?case by simp
next
  case (Cons p chain p' chain')
  then show ?case
    by (simp add: resolve_loop_Cons resolve_body_fields_eq [of p p'] del: resolve_loop.simps(2))
qed

lemma resolve_fields_eq:
  assumes "list_all2 fields_eq parents parents'" and "fields_eq self self'"
  shows "fields_eq (fst (resolve self parents st)) (fst (resolve self' parents' st))"
    and "snd (resolve self parents st) = snd (resolve self' parents' st)"
proof -
  from assms(1) have len: "parents = [] \<longleftrightarrow> parents' = []" by (auto simp: list_all2_Nil list_all2_Nil2)
  from assms have "list_all2 fields_eq (parents @ [self]) (parents' @ [self'])"
    by (simp add: list_all2_appendI)
  then have "resolve_loop (parents @ [self]) venv st = resolve_loop (parents' @ [self']) venv st" for venv
    by (rule resolve_loop_fields_eq)
  with len assms(2) show "fields_eq (fst (resolve self parents st)) (fst (resolve self' parents' st))"
    and "snd (resolve self parents st) = snd (resolve self' parents' st)"
    by (auto simp: resolve_def)
qed

lemma expand_venv_fields_eq:
  "fields_eq r r' \<Longrightarrow> expand_venv r cmd st = expand_venv r' cmd st"
  by (simp add: fields_eq_def expand_venv_def)

lemma own_instances_fields_eq:
  "fields_eq r r' \<Longrightarrow> own_instances r st = own_instances r' st"
  by (simp add: own_instances_def expand_venv_fields_eq [of r r'] fields_eq_def split: option.splits)

lemma instances_chain_fields_eq:
  fixes parents chain :: "'py Venv list"
  shows "list_all2 fields_eq parents parents' \<Longrightarrow>
     instances pattern parents self st = instances pattern parents' self st"
    and "list_all2 fields_eq chain chain' \<Longrightarrow>
     instances_venvs pattern chain vs st = instances_venvs pattern chain' vs st"
proof (induction pattern parents self st and pattern chain vs st
       arbitrary: parents' and chain' rule: instances_instances_venvs.induct)
  case (1 pattern parents n c p k e vs st)
  let ?self = "Venv n c p k e vs"
  from 1(2) have ch: "list_all2 fields_eq (parents @ [?self]) (parents' @ [?self])"
    by (simp add: list_all2_appendI)
  have kids: "instances_venvs pattern (parents @ [?self]) vs st =
              instances_venvs pattern (parents' @ [?self]) vs st"
    by (rule 1(1) [OF ch])
  from 1(2) have res: "resolve ?self parents st' = resolve ?self parents' st'" for st'
    using resolve_loop_fields_eq [OF ch]
    by (auto simp: resolve_def list_all2_Nil list_all2_Nil2)
  show ?case
    unfolding instances_unfold [of pattern parents ?self] instances_unfold [of pattern parents' ?self]
    using kids res by simp
next
  case (2 pattern chain st)
  then show ?case by simp
next
  case (3 pattern chain venv rest st)
  show ?case
  proof (cases "skipped pattern venv")
    case True
    with 3 show ?thesis by simp
  next
    case False
    have a: "instances pattern chain venv st = instances pattern chain' venv st"
      using 3(2) [OF False 3(4)] .
    have b: "instances_venvs pattern chain rest (snd (instances pattern chain venv st)) =
             instances_venvs pattern chain' rest (snd (instances pattern chain venv st))"
      using 3(3) [OF False _ 3(4)] by (metis prod.collapse)
    show ?thesis
      unfolding instances_venvs_Cons using False a b by simp
  qed
qed

section \<open>Properties of the enumeration\<close>

text \<open>
  The store of a process in which no node was resolved yet and no node was given a
  dictionary of its own, and the definitions that the examples below unfold.
\<close>

definition empty_store :: store where
  "empty_store = \<lparr>pkgs_heap = (\<lambda>_. []), env_heap = (\<lambda>_. [])\<rparr>"

lemmas walk_defs = resolve_def resolve_body_def Venv_new_def truthy_def skipped_def
  set_name_def set_pys_def set_command_def heap_update_def dict_update_def expand_venv_def
  expand_specs_def itertools_product_def empty_store_def dict_get_def

subsection \<open>Pruning by name\<close>

lemma skipped_iff:
  "skipped pattern venv \<longleftrightarrow> (\<exists>nm. Venv.name venv = Some nm \<and> nm \<noteq> [] \<and> \<not> pattern nm)"
  by (auto simp: skipped_def split: option.splits)

text \<open>
  Claim C4, as amended. For every child met by the walk (every node of the tree but the
  root) whose name is a string other than \<open>""\<close> that the pattern does not match, the
  enumeration yields no instance from that child and from its entire subtree, whatever
  the names in the subtree: the parent enumerates the same instances, and leaves the same
  store, as if that child were not in its list.
\<close>

theorem mismatched_child_subtree_is_pruned:
  assumes "Venv.name venv = Some nm" and "nm \<noteq> []" and "\<not> pattern nm"
  shows "instances pattern parents (Venv n c p k e (vs1 @ venv # vs2)) st =
         instances pattern parents (Venv n c p k e (vs1 @ vs2)) st"
proof -
  let ?S = "Venv n c p k e (vs1 @ venv # vs2)" and ?S' = "Venv n c p k e (vs1 @ vs2)"
  from assms have skip: "skipped pattern venv" by (auto simp: skipped_iff)
  have feq: "fields_eq ?S ?S'" by (simp add: fields_eq_def)
  then have "list_all2 fields_eq (parents @ [?S]) (parents @ [?S'])"
    by (simp add: list_all2_appendI list_all2_refl)
  then have kids: "instances_venvs pattern (parents @ [?S]) (vs1 @ venv # vs2) st =
                   instances_venvs pattern (parents @ [?S']) (vs1 @ vs2) st"
    using instances_venvs_skip [OF skip] instances_chain_fields_eq(2) by metis
  have "list_all2 fields_eq parents parents" by (simp add: list_all2_refl)
  from resolve_fields_eq [OF this feq]
  have own: "own_instances (fst (resolve ?S parents st')) (snd (resolve ?S parents st')) =
             own_instances (fst (resolve ?S' parents st')) (snd (resolve ?S' parents st'))"
    and snd: "snd (resolve ?S parents st') = snd (resolve ?S' parents st')" for st'
    by (simp_all add: own_instances_fields_eq)
  show ?thesis
    unfolding instances_unfold [of pattern parents ?S] instances_unfold [of pattern parents ?S']
    using kids own snd by (simp add: Let_def)
qed

text \<open>
  The child \<open>x\<close> is not matched by a pattern that matches \<open>y\<close> only; its own child is
  named \<open>y\<close> and would be runnable with the interpreters of \<open>x\<close>, and yields nothing.
  The sibling \<open>y\<close> of \<open>x\<close> yields its instance.
\<close>

theorem mismatched_child_subtree_is_pruned_witness:
  "fst (instances (\<lambda>n. n = ''y'') []
     (Venv None None [] Default Default
        [Venv (Some ''x'') None [''3.8''] Default Default
           [Venv (Some ''y'') (Some ''hidden'') [] Default Default []],
         Venv (Some ''y'') (Some ''run'') [''3.8''] Default Default []]) empty_store) =
   [\<lparr>VenvInstance.name = Some ''y'', py = ''3.8'', command = ''run'', env = [], pkgs = []\<rparr>]"
proof -
  let ?x = "Venv (Some ''x'') None [''3.8''] Default Default
              [Venv (Some ''y'') (Some ''hidden'') [] Default Default []]"
  let ?y = "Venv (Some ''y'') (Some ''run'') [''3.8''] Default Default []"
  have "instances (\<lambda>n. n = ''y'') [] (Venv None None [] Default Default ([] @ ?x # [?y]))
          empty_store =
        instances (\<lambda>n. n = ''y'') [] (Venv None None [] Default Default ([] @ [?y])) empty_store"
    by (rule mismatched_child_subtree_is_pruned [where nm = "''x''"]) simp_all
  then show ?thesis by (simp add: walk_defs)
qed

text \<open>
  The claim as it stands fails at the root: \<open>Session.run\<close> calls \<open>instances\<close> on the
  root, and only the loop over \<open>self.venvs\<close> compares names with the pattern. A root named
  \<open>x\<close> yields its instance under a pattern that does not match \<open>x\<close>.
\<close>

theorem named_root_is_not_filtered:
  "Venv.name (Venv (Some ''x'') (Some ''cmd'') [''3.8''] Default Default []) = Some ''x'' \<and>
   \<not> (\<lambda>n. n = ''y'') ''x'' \<and>
   fst (instances (\<lambda>n. n = ''y'') []
     (Venv (Some ''x'') (Some ''cmd'') [''3.8''] Default Default []) empty_store) =
   [\<lparr>VenvInstance.name = Some ''x'', py = ''3.8'', command = ''cmd'', env = [], pkgs = []\<rparr>]"
  by (simp add: walk_defs)

subsection \<open>Nodes that are not runnable\<close>

lemma flow_over_later_nodes:
  assumes "\<forall>m\<in>set post. src m \<noteq> t \<and> src m \<noteq> a \<longrightarrow> key \<notin> fst ` set (h (src m))"
    and "distinct (map fst (h a))" and "map_of (h a) key = Some vals"
    and "map_of acc key = Some vals"
  shows "map_of (foldl (\<lambda>d p. if src p = t then d else dict_update d (h (src p))) acc post) key =
         Some vals"
  using assms
proof (induction post arbitrary: acc)
  case Nil
  then show ?case by simp
next
  case (Cons m post)
  have "map_of (if src m = t then acc else dict_update acc (h (src m))) key = Some vals"
  proof (cases "src m = t \<or> src m = a")
    case True
    with Cons.prems show ?thesis by (auto simp: map_of_dict_update_present)
  next
    case False
    with Cons.prems have "key \<notin> fst ` set (h (src m))" by simp
    with False Cons.prems show ?thesis by (simp add: map_of_dict_update_absent)
  qed
  with Cons show ?case by simp
qed

lemma flow_through_chain:
  assumes "a \<noteq> t" and "src self = a"
    and "\<forall>m\<in>set post. src m \<noteq> t \<and> src m \<noteq> a \<longrightarrow> key \<notin> fst ` set (h (src m))"
    and "distinct (map fst (h a))" and "map_of (h a) key = Some vals"
  shows "map_of (foldl (\<lambda>h p. heap_update h t (src p)) h (pre @ self # post) t) key = Some vals"
proof -
  let ?f = "\<lambda>d p. if src p = t then d else dict_update d (h (src p))"
  have "map_of (?f (foldl ?f (h t) pre) self) key = Some vals"
    using assms by (simp add: map_of_dict_update_present)
  then have "map_of (foldl ?f (?f (foldl ?f (h t) pre) self) post) key = Some vals"
    by (rule flow_over_later_nodes [OF assms(3,4,5)])
  then show ?thesis unfolding heap_updates_target by simp
qed

lemma last_where_all_bad: "\<forall>x\<in>set xs. \<not> ok x \<Longrightarrow> last_where ok dflt xs = dflt"
  by (induction xs arbitrary: dflt) (simp_all add: last_where_Cons)

lemma last_where_append: "last_where ok dflt (xs @ ys) = last_where ok (last_where ok dflt xs) ys"
  by (induction xs arbitrary: dflt) (simp_all add: last_where_Cons)

lemma resolve_chain_pys:
  assumes "pys self \<noteq> []" and "\<forall>m\<in>set (mid @ [d]). pys m = []"
  shows "pys (fst (resolve d (parents @ self # mid) st)) = pys self"
proof -
  have "last_where (\<lambda>p. p \<noteq> []) (pys self) (map pys (mid @ [d])) = pys self"
    using assms(2) by (intro last_where_all_bad) auto
  then have "last_where (\<lambda>p. p \<noteq> []) dflt (map pys ((parents @ self # mid) @ [d])) = pys self"
    for dflt
    using assms(1) by (simp add: last_where_append last_where_Cons)
  then show ?thesis by (simp add: resolve_def resolve_loop_pys)
qed

lemma resolve_chain_pkgs:
  assumes "Venv.pkgs self = Own a"
    and "distinct (map fst (pkgs_heap st (Own a)))"
    and "dict_get (pkgs_heap st (Own a)) key = Some vals"
    and "\<forall>m\<in>set (mid @ [d]). Venv.pkgs m \<noteq> Default \<and> Venv.pkgs m \<noteq> Own a \<longrightarrow>
           key \<notin> fst ` set (pkgs_heap st (Venv.pkgs m))"
  shows "dict_get (pkgs_heap (snd (resolve d (parents @ self # mid) st))
           (Venv.pkgs (fst (resolve d (parents @ self # mid) st)))) key = Some vals"
proof -
  have "map_of (foldl (\<lambda>h p. heap_update h Default (Venv.pkgs p)) (pkgs_heap st)
          (parents @ self # (mid @ [d])) Default) key = Some vals"
    using assms by (intro flow_through_chain [where a = "Own a"]) (simp_all add: dict_get_def)
  then show ?thesis
    by (simp add: resolve_def resolve_loop_refs resolve_loop_pkgs_heap Venv_new_def dict_get_def)
qed

lemma resolve_chain_env:
  assumes "Venv.env self = Own a"
    and "distinct (map fst (env_heap st (Own a)))"
    and "dict_get (env_heap st (Own a)) key = Some vals"
    and "\<forall>m\<in>set (mid @ [d]). Venv.env m \<noteq> Default \<and> Venv.env m \<noteq> Own a \<longrightarrow>
           key \<notin> fst ` set (env_heap st (Venv.env m))"
  shows "dict_get (env_heap (snd (resolve d (parents @ self # mid) st))
           (Venv.env (fst (resolve d (parents @ self # mid) st)))) key = Some vals"
proof -
  have "map_of (foldl (\<lambda>h p. heap_update h Default (Venv.env p)) (env_heap st)
          (parents @ self # (mid @ [d])) Default) key = Some vals"
    using assms by (intro flow_through_chain [where a = "Own a"]) (simp_all add: dict_get_def)
  then show ?thesis
    by (simp add: resolve_def resolve_loop_refs resolve_loop_env_heap Venv_new_def dict_get_def)
qed

lemma own_instances_not_runnable:
  "\<not> truthy (Venv.command r) \<or> pys r = [] \<Longrightarrow> own_instances r st = []"
  by (auto simp: own_instances_def truthy_def split: option.splits)

text \<open>
  Claim C5. A node whose resolved form has no command, or no interpreter, yields no
  instance of its own: its enumeration is that of its children, walked with the node
  appended to the ancestors. What the node declares still reaches every descendant \<open>d\<close>
  that is resolved below it (\<open>mid\<close> are the nodes between them): its interpreters, when
  no node below sets its own; and the candidates of each key of its own \<open>pkgs\<close> and \<open>env\<close>
  dictionaries, when no dictionary of a node below has that key.
\<close>

theorem non_runnable_node_yields_nothing_but_passes_defaults:
  assumes "\<not> truthy (Venv.command (fst (resolve self parents
                (snd (instances_venvs pattern (parents @ [self]) (venvs self) st))))) \<or>
           pys (fst (resolve self parents
                (snd (instances_venvs pattern (parents @ [self]) (venvs self) st)))) = []"
  shows "fst (instances pattern parents self st) =
           fst (instances_venvs pattern (parents @ [self]) (venvs self) st) \<and>
         (pys self \<noteq> [] \<and> (\<forall>m\<in>set (mid @ [d]). pys m = []) \<longrightarrow>
            pys (fst (resolve d (parents @ self # mid) st')) = pys self) \<and>
         (Venv.pkgs self = Own a \<and> distinct (map fst (pkgs_heap st' (Own a))) \<and>
          dict_get (pkgs_heap st' (Own a)) key = Some vals \<and>
          (\<forall>m\<in>set (mid @ [d]). Venv.pkgs m \<noteq> Default \<and> Venv.pkgs m \<noteq> Own a \<longrightarrow>
             key \<notin> fst ` set (pkgs_heap st' (Venv.pkgs m))) \<longrightarrow>
            dict_get (pkgs_heap (snd (resolve d (parents @ self # mid) st'))
              (Venv.pkgs (fst (resolve d (parents @ self # mid) st')))) key = Some vals) \<and>
         (Venv.env self = Own b \<and> distinct (map fst (env_heap st' (Own b))) \<and>
          dict_get (env_heap st' (Own b)) var = Some cands \<and>
          (\<forall>m\<in>set (mid @ [d]). Venv.env m \<noteq> Default \<and> Venv.env m \<noteq> Own b \<longrightarrow>
             var \<notin> fst ` set (env_heap st' (Venv.env m))) \<longrightarrow>
            dict_get (env_heap (snd (resolve d (parents @ self # mid) st'))
              (Venv.env (fst (resolve d (parents @ self # mid) st')))) var = Some cands)"
proof (intro conjI impI)
  show "fst (instances pattern parents self st) =
        fst (instances_venvs pattern (parents @ [self]) (venvs self) st)"
    using assms by (simp add: instances_unfold Let_def own_instances_not_runnable)
next
  assume "pys self \<noteq> [] \<and> (\<forall>m\<in>set (mid @ [d]). pys m = [])"
  then show "pys (fst (resolve d (parents @ self # mid) st')) = pys self"
    using resolve_chain_pys [of self mid d parents st'] by blast
next
  assume "Venv.pkgs self = Own a \<and> distinct (map fst (pkgs_heap st' (Own a))) \<and>
          dict_get (pkgs_heap st' (Own a)) key = Some vals \<and>
          (\<forall>m\<in>set (mid @ [d]). Venv.pkgs m \<noteq> Default \<and> Venv.pkgs m \<noteq> Own a \<longrightarrow>
             key \<notin> fst ` set (pkgs_heap st' (Venv.pkgs m)))"
  then show "dict_get (pkgs_heap (snd (resolve d (parents @ self # mid) st'))
              (Venv.pkgs (fst (resolve d (parents @ self # mid) st')))) key = Some vals"
    using resolve_chain_pkgs [of self a st' key vals mid d parents] by blast
next
  assume "Venv.env self = Own b \<and> distinct (map fst (env_heap st' (Own b))) \<and>
          dict_get (env_heap st' (Own b)) var = Some cands \<and>
          (\<forall>m\<in>set (mid @ [d]). Venv.env m \<noteq> Default \<and> Venv.env m \<noteq> Own b \<longrightarrow>
             var \<notin> fst ` set (env_heap st' (Venv.env m)))"
  then show "dict_get (env_heap (snd (resolve d (parents @ self # mid) st'))
              (Venv.env (fst (resolve d (parents @ self # mid) st')))) var = Some cands"
    using resolve_chain_env [of self b st' var cands mid d parents] by blast
qed

text \<open>
  A node with an interpreter, a package axis and an environment axis but no command, and
  a child with a name and a command only: the node yields nothing itself, and the child
  yields one instance per candidate of the package axis, with the interpreter and the
  environment variable of the node.
\<close>

definition defaults_store :: store where
  "defaults_store =
     \<lparr>pkgs_heap = (\<lambda>_. [])(Own 1 := [(''pkgA'', [Some '''', Some ''>=1.0''])]),
      env_heap = (\<lambda>_. [])(Own 2 := [(''MODE'', [Literal (Some ''fast'')])])\<rparr>"

definition leaf_test :: "string Venv" where
  "leaf_test = Venv (Some ''test'') (Some ''pytest'') [] Default Default []"

definition defaults_only :: "string Venv" where
  "defaults_only = Venv None None [''3.8''] (Own 1) (Own 2) [leaf_test]"

lemmas defaults_defs = defaults_store_def leaf_test_def defaults_only_def

theorem non_runnable_node_yields_nothing_but_passes_defaults_witness:
  "fst (instances (\<lambda>_. True) [] defaults_only defaults_store) =
     fst (instances_venvs (\<lambda>_. True) [defaults_only] [leaf_test] defaults_store) \<and>
   fst (instances (\<lambda>_. True) [] defaults_only defaults_store) =
     [\<lparr>VenvInstance.name = Some ''test'', py = ''3.8'', command = ''pytest'',
       env = [(''MODE'', Literal (Some ''fast''))], pkgs = [(''pkgA'', Some '''')]\<rparr>,
      \<lparr>VenvInstance.name = Some ''test'', py = ''3.8'', command = ''pytest'',
       env = [(''MODE'', Literal (Some ''fast''))], pkgs = [(''pkgA'', Some ''>=1.0'')]\<rparr>] \<and>
   pys (fst (resolve leaf_test [defaults_only] defaults_store)) = [''3.8''] \<and>
   dict_get (pkgs_heap (snd (resolve leaf_test [defaults_only] defaults_store))
     (Venv.pkgs (fst (resolve leaf_test [defaults_only] defaults_store)))) ''pkgA'' =
     Some [Some '''', Some ''>=1.0''] \<and>
   dict_get (env_heap (snd (resolve leaf_test [defaults_only] defaults_store))
     (Venv.env (fst (resolve leaf_test [defaults_only] defaults_store)))) ''MODE'' =
     Some [Literal (Some ''fast'')]"
proof -
  have not_runnable:
    "\<not> truthy (Venv.command (fst (resolve defaults_only []
         (snd (instances_venvs (\<lambda>_. True) ([] @ [defaults_only]) (venvs defaults_only)
            defaults_store))))) \<or>
     pys (fst (resolve defaults_only []
         (snd (instances_venvs (\<lambda>_. True) ([] @ [defaults_only]) (venvs defaults_only)
            defaults_store)))) = []"
    by (simp add: resolve_def defaults_only_def truthy_def)
  have pys: "pys defaults_only \<noteq> [] \<and> (\<forall>m\<in>set ([] @ [leaf_test]). pys m = [])"
    by (simp add: defaults_defs)
  have pkgs: "Venv.pkgs defaults_only = Own 1 \<and>
      distinct (map fst (pkgs_heap defaults_store (Own 1))) \<and>
      dict_get (pkgs_heap defaults_store (Own 1)) ''pkgA'' = Some [Some '''', Some ''>=1.0''] \<and>
      (\<forall>m\<in>set ([] @ [leaf_test]). Venv.pkgs m \<noteq> Default \<and> Venv.pkgs m \<noteq> Own 1 \<longrightarrow>
         ''pkgA'' \<notin> fst ` set (pkgs_heap defaults_store (Venv.pkgs m)))"
    by (simp add: defaults_defs dict_get_def)
  have env: "Venv.env defaults_only = Own 2 \<and>
      distinct (map fst (env_heap defaults_store (Own 2))) \<and>
      dict_get (env_heap defaults_store (Own 2)) ''MODE'' = Some [Literal (Some ''fast'')] \<and>
      (\<forall>m\<in>set ([] @ [leaf_test]). Venv.env m \<noteq> Default \<and> Venv.env m \<noteq> Own 2 \<longrightarrow>
         ''MODE'' \<notin> fst ` set (env_heap defaults_store (Venv.env m)))"
    by (simp add: defaults_defs dict_get_def)
  from non_runnable_node_yields_nothing_but_passes_defaults [OF not_runnable,
      where mid = "[]" and d = leaf_test and st' = defaults_store and a = 1 and b = 2
        and key = "''pkgA''" and vals = "[Some '''', Some ''>=1.0'']"
        and var = "''MODE''" and cands = "[Literal (Some ''fast'')]"]
    pys pkgs env
  have "fst (instances (\<lambda>_. True) [] defaults_only defaults_store) =
          fst (instances_venvs (\<lambda>_. True) ([] @ [defaults_only]) (venvs defaults_only) defaults_store)"
    and "pys (fst (resolve leaf_test ([] @ defaults_only # []) defaults_store)) = pys defaults_only"
    and "dict_get (pkgs_heap (snd (resolve leaf_test ([] @ defaults_only # []) defaults_store))
          (Venv.pkgs (fst (resolve leaf_test ([] @ defaults_only # []) defaults_store)))) ''pkgA'' =
         Some [Some '''', Some ''>=1.0'']"
    and "dict_get (env_heap (snd (resolve leaf_test ([] @ defaults_only # []) defaults_store))
          (Venv.env (fst (resolve leaf_test ([] @ defaults_only # []) defaults_store)))) ''MODE'' =
         Some [Literal (Some ''fast'')]"
    by blast+
  moreover have "fst (instances_venvs (\<lambda>_. True) [defaults_only] [leaf_test] defaults_store) =
     [\<lparr>VenvInstance.name = Some ''test'', py = ''3.8'', command = ''pytest'',
       env = [(''MODE'', Literal (Some ''fast''))], pkgs = [(''pkgA'', Some '''')]\<rparr>,
      \<lparr>VenvInstance.name = Some ''test'', py = ''3.8'', command = ''pytest'',
       env = [(''MODE'', Literal (Some ''fast''))], pkgs = [(''pkgA'', Some ''>=1.0'')]\<rparr>]"
    by (simp add: walk_defs defaults_defs)
  ultimately show ?thesis by (simp add: defaults_only_def)
qed

subsection \<open>The expansion of a runnable node\<close>

lemma length_concat_uniform:
  "\<forall>x\<in>set xs. length (f x) = m \<Longrightarrow> length (concat (map f xs)) = length xs * m"
  by (induction xs) simp_all

lemma nth_concat_uniform:
  "\<forall>x\<in>set xs. length (f x) = m \<Longrightarrow> i < length xs \<Longrightarrow> j < m \<Longrightarrow>
   concat (map f xs) ! (i * m + j) = f (xs ! i) ! j"
proof (induction xs arbitrary: i)
  case Nil
  then show ?case by simp
next
  case (Cons x xs)
  show ?case
  proof (cases i)
    case 0
    with Cons.prems show ?thesis by (simp add: nth_append)
  next
    case (Suc i')
    with Cons.prems have "concat (map f xs) ! (i' * m + j) = f (xs ! i') ! j"
      by (intro Cons.IH) auto
    with Suc Cons.prems show ?thesis by (simp add: nth_append add.assoc)
  qed
qed

lemma expand_venv_length:
  "length (expand_venv r cmd st) =
     length (expand_specs (env_heap st (Venv.env r))) * length (pys r) *
     length (expand_specs (pkgs_heap st (Venv.pkgs r)))"
  by (simp add: expand_venv_def length_concat_uniform
      [where m = "length (pys r) * length (expand_specs (pkgs_heap st (Venv.pkgs r)))"]
      length_concat_uniform [where m = "length (expand_specs (pkgs_heap st (Venv.pkgs r)))"])

lemma expand_venv_nth:
  assumes "i < length (expand_specs (env_heap st (Venv.env r)))"
    and "j < length (pys r)"
    and "k < length (expand_specs (pkgs_heap st (Venv.pkgs r)))"
  shows "expand_venv r cmd st !
           ((i * length (pys r) + j) * length (expand_specs (pkgs_heap st (Venv.pkgs r))) + k) =
         \<lparr>VenvInstance.name = Venv.name r, py = pys r ! j, command = cmd,
          env = expand_specs (env_heap st (Venv.env r)) ! i,
          pkgs = expand_specs (pkgs_heap st (Venv.pkgs r)) ! k\<rparr>"
proof -
  let ?K = "expand_specs (pkgs_heap st (Venv.pkgs r))"
  let ?E = "expand_specs (env_heap st (Venv.env r))"
  let ?inner = "\<lambda>env' py'. map (\<lambda>pkgs'. \<lparr>VenvInstance.name = Venv.name r, py = py',
      command = cmd, env = env', pkgs = pkgs'\<rparr>) ?K"
  let ?mid = "\<lambda>env'. concat (map (?inner env') (pys r))"
  have len_mid: "\<forall>e\<in>set ?E. length (?mid e) = length (pys r) * length ?K"
    by (simp add: length_concat_uniform [where m = "length ?K"])
  have jk: "j * length ?K + k < length (pys r) * length ?K"
  proof -
    have "j * length ?K + k < Suc j * length ?K" using assms(3) by simp
    also have "\<dots> \<le> length (pys r) * length ?K" using assms(2) by (intro mult_le_mono1) simp
    finally show ?thesis .
  qed
  have idx: "(i * length (pys r) + j) * length ?K + k =
             i * (length (pys r) * length ?K) + (j * length ?K + k)"
    by (simp add: algebra_simps)
  have "concat (map ?mid ?E) ! (i * (length (pys r) * length ?K) + (j * length ?K + k)) =
        ?mid (?E ! i) ! (j * length ?K + k)"
    using len_mid assms(1) jk by (rule nth_concat_uniform)
  also have "\<dots> = ?inner (?E ! i) (pys r ! j) ! k"
    using assms(2,3) by (intro nth_concat_uniform) simp_all
  also have "\<dots> = \<lparr>VenvInstance.name = Venv.name r, py = pys r ! j, command = cmd,
      env = ?E ! i, pkgs = ?K ! k\<rparr>"
    using assms(3) by simp
  finally show ?thesis unfolding idx by (simp add: expand_venv_def)
qed

text \<open>
  Claim C6. When the resolved form of a node is runnable, the instances it yields after
  those of its children are one for each triple of an environment combination, an
  interpreter and a package combination: as many as the product of the three counts, and
  the triple \<open>(i, j, k)\<close> stands at position \<open>(i * #interpreters + j) * #packages + k\<close>,
  so the environment combinations vary slowest and the package combinations fastest.
\<close>

theorem runnable_node_yields_one_instance_per_triple:
  assumes "resolve self parents
             (snd (instances_venvs pattern (parents @ [self]) (venvs self) st)) = (resolved, st2)"
    and "Venv.command resolved = Some cmd" and "cmd \<noteq> []" and "pys resolved \<noteq> []"
  shows "\<exists>own.
           fst (instances pattern parents self st) =
             fst (instances_venvs pattern (parents @ [self]) (venvs self) st) @ own \<and>
           length own =
             length (expand_specs (env_heap st2 (Venv.env resolved))) * length (pys resolved) *
             length (expand_specs (pkgs_heap st2 (Venv.pkgs resolved))) \<and>
           (\<forall>i < length (expand_specs (env_heap st2 (Venv.env resolved))).
            \<forall>j < length (pys resolved).
            \<forall>k < length (expand_specs (pkgs_heap st2 (Venv.pkgs resolved))).
              own ! ((i * length (pys resolved) + j) *
                       length (expand_specs (pkgs_heap st2 (Venv.pkgs resolved))) + k) =
              \<lparr>VenvInstance.name = Venv.name resolved, py = pys resolved ! j, command = cmd,
               env = expand_specs (env_heap st2 (Venv.env resolved)) ! i,
               pkgs = expand_specs (pkgs_heap st2 (Venv.pkgs resolved)) ! k\<rparr>)"
proof (intro exI conjI allI impI)
  show "fst (instances pattern parents self st) =
        fst (instances_venvs pattern (parents @ [self]) (venvs self) st) @
        expand_venv resolved cmd st2"
    using assms by (simp add: instances_unfold Let_def own_instances_def)
qed (simp_all add: expand_venv_length expand_venv_nth)

text \<open>
  Two candidates on each of the three axes give eight instances; position 5 is
  \<open>(1 * 2 + 0) * 2 + 1\<close>: the second environment combination, the first interpreter and
  the second package combination.
\<close>

theorem runnable_node_yields_one_instance_per_triple_witness:
  "length (fst (instances (\<lambda>_. True) []
      (Venv (Some ''t'') (Some ''cmd'') [''3.7'', ''3.8''] (Own 1) (Own 2) [])
      \<lparr>pkgs_heap = (\<lambda>_. [])(Own 1 := [(''p'', [Some '''', Some ''==1''])]),
       env_heap = (\<lambda>_. [])(Own 2 := [(''E'', [Literal (Some ''0''), Literal (Some ''1'')])])\<rparr>)) = 8 \<and>
   fst (instances (\<lambda>_. True) []
      (Venv (Some ''t'') (Some ''cmd'') [''3.7'', ''3.8''] (Own 1) (Own 2) [])
      \<lparr>pkgs_heap = (\<lambda>_. [])(Own 1 := [(''p'', [Some '''', Some ''==1''])]),
       env_heap = (\<lambda>_. [])(Own 2 := [(''E'', [Literal (Some ''0''), Literal (Some ''1'')])])\<rparr>) ! 5 =
   \<lparr>VenvInstance.name = Some ''t'', py = ''3.7'', command = ''cmd'',
    env = [(''E'', Literal (Some ''1''))], pkgs = [(''p'', Some ''==1'')]\<rparr>"
proof -
  let ?node = "Venv (Some ''t'') (Some ''cmd'') [''3.7'', ''3.8''] (Own 1) (Own 2) []"
  let ?st = "\<lparr>pkgs_heap = (\<lambda>_. [])(Own 1 := [(''p'', [Some '''', Some ''==1''])]),
       env_heap = (\<lambda>_. [])(Own 2 := [(''E'', [Literal (Some ''0''), Literal (Some ''1'')])])\<rparr>"
  let ?E = "expand_specs (env_heap ?st (Venv.env ?node))"
  let ?K = "expand_specs (pkgs_heap ?st (Venv.pkgs ?node))"
  have res: "resolve ?node [] (snd (instances_venvs (\<lambda>_. True) ([] @ [?node]) (venvs ?node) ?st)) =
             (?node, ?st)"
    by (simp add: resolve_def)
  have cmd: "Venv.command ?node = Some ''cmd''" and ne: "''cmd'' \<noteq> []" and ps: "pys ?node \<noteq> []"
    by simp_all
  have envs: "?E = [[(''E'', Literal (Some ''0''))], [(''E'', Literal (Some ''1''))]]"
    and pkgs: "?K = [[(''p'', Some '''')], [(''p'', Some ''==1'')]]"
    by (simp_all add: expand_specs_def itertools_product_def)
  from runnable_node_yields_one_instance_per_triple [OF res cmd ne ps]
  obtain own where own: "fst (instances (\<lambda>_. True) [] ?node ?st) =
        fst (instances_venvs (\<lambda>_. True) ([] @ [?node]) (venvs ?node) ?st) @ own"
    and len: "length own = length ?E * length (pys ?node) * length ?K"
    and nth: "\<forall>i<length ?E. \<forall>j<length (pys ?node). \<forall>k<length ?K.
       own ! ((i * length (pys ?node) + j) * length ?K + k) =
       \<lparr>VenvInstance.name = Venv.name ?node, py = pys ?node ! j, command = ''cmd'',
        env = ?E ! i, pkgs = ?K ! k\<rparr>"
    by blast
  have i: "1 < length ?E" and j: "0 < length (pys ?node)" and k: "1 < length ?K"
    unfolding envs pkgs by simp_all
  from nth [rule_format, OF i j k]
  have "own ! 5 = \<lparr>VenvInstance.name = Some ''t'', py = ''3.7'', command = ''cmd'',
        env = [(''E'', Literal (Some ''1''))], pkgs = [(''p'', Some ''==1'')]\<rparr>"
    unfolding envs pkgs by (simp add: eval_nat_numeral)
  moreover from len have "length own = 8" unfolding envs pkgs by simp
  moreover from own have "fst (instances (\<lambda>_. True) [] ?node ?st) = own" by simp
  ultimately show ?thesis by (simp only:)
qed

subsection \<open>Children before the node itself\<close>

text \<open>
  Claim C10. When a node has a child that passes the pattern and its own resolved form is
  runnable, the instances of the children come first, child after child in the order of
  the list, and the instances expanded from the node itself come last.
\<close>

theorem children_instances_come_before_own:
  assumes "venvs self = vs1 @ child # vs2" and "\<not> skipped pattern child"
    and "resolve self parents
           (snd (instances_venvs pattern (parents @ [self]) (venvs self) st)) = (resolved, st2)"
    and "Venv.command resolved = Some cmd" and "cmd \<noteq> []" and "pys resolved \<noteq> []"
  shows "fst (instances pattern parents self st) =
           fst (instances_venvs pattern (parents @ [self]) vs1 st) @
           fst (instances pattern (parents @ [self]) child
                  (snd (instances_venvs pattern (parents @ [self]) vs1 st))) @
           fst (instances_venvs pattern (parents @ [self]) vs2
                  (snd (instances pattern (parents @ [self]) child
                     (snd (instances_venvs pattern (parents @ [self]) vs1 st))))) @
           expand_venv resolved cmd st2"
proof -
  have "fst (instances pattern parents self st) =
        fst (instances_venvs pattern (parents @ [self]) (vs1 @ child # vs2) st) @
        expand_venv resolved cmd st2"
    using assms by (simp add: instances_unfold Let_def own_instances_def)
  then show ?thesis
    using assms(2)
    by (simp add: instances_venvs_append [of _ _ vs1] instances_venvs_Cons
        del: instances_venvs.simps(2))
qed

text \<open>
  A runnable node with two children that take its interpreter: the instances of the
  first child, of the second child, then of the node.
\<close>

theorem children_instances_come_before_own_witness:
  "fst (instances (\<lambda>_. True) []
     (Venv (Some ''parent'') (Some ''own'') [''3.8''] Default Default
        [Venv (Some ''first'') (Some ''one'') [] Default Default [],
         Venv (Some ''second'') (Some ''two'') [] Default Default []]) empty_store) =
   [\<lparr>VenvInstance.name = Some ''first'', py = ''3.8'', command = ''one'', env = [], pkgs = []\<rparr>,
    \<lparr>VenvInstance.name = Some ''second'', py = ''3.8'', command = ''two'', env = [], pkgs = []\<rparr>,
    \<lparr>VenvInstance.name = Some ''parent'', py = ''3.8'', command = ''own'', env = [], pkgs = []\<rparr>]"
proof -
  let ?first = "Venv (Some ''first'') (Some ''one'') [] Default Default []"
  let ?second = "Venv (Some ''second'') (Some ''two'') [] Default Default []"
  let ?parent = "Venv (Some ''parent'') (Some ''own'') [''3.8''] Default Default [?first, ?second]"
  have kids: "venvs ?parent = [?first] @ ?second # []" by simp
  have passes: "\<not> skipped (\<lambda>_. True) ?second" by (simp add: skipped_def)
  have res: "resolve ?parent []
      (snd (instances_venvs (\<lambda>_. True) ([] @ [?parent]) (venvs ?parent) empty_store)) =
      (?parent, empty_store)"
    by (simp add: walk_defs)
  from children_instances_come_before_own [OF kids passes res, of "''own''"]
  show ?thesis by (simp add: walk_defs)
qed

section \<open>The shared default dictionaries\<close>

text \<open>
  What the merge of a chain is to be, in the words of the specification: for the scalar
  fields the last value of the chain that is not empty, and for each of the two mappings
  the accumulation, from the empty mapping, of the mappings of the chain in its order,
  each key keeping the candidate list written last.
\<close>

definition merged :: "(ref \<Rightarrow> 'v pydict) \<Rightarrow> ref list \<Rightarrow> 'v pydict" where
  "merged h refs = foldl dict_update [] (map h refs)"

definition resolves_as_specified :: "'py Venv list \<Rightarrow> store \<Rightarrow> 'py Venv \<times> store \<Rightarrow> bool" where
  "resolves_as_specified chain st out =
     (case out of (resolved, st') \<Rightarrow>
        Venv.name resolved = last_where truthy None (map Venv.name chain) \<and>
        Venv.command resolved = last_where truthy None (map Venv.command chain) \<and>
        pys resolved = last_where (\<lambda>p. p \<noteq> []) [] (map pys chain) \<and>
        pkgs_heap st' (Venv.pkgs resolved) = merged (pkgs_heap st) (map Venv.pkgs chain) \<and>
        env_heap st' (Venv.env resolved) = merged (env_heap st) (map Venv.env chain))"

lemma resolve_without_parents: "resolve self [] st = (self, st)"
  by (simp add: resolve_def)

lemma merged_when_default_empty:
  assumes "h Default = []"
  shows "foldl (\<lambda>h p. heap_update h Default (src p)) h chain Default = merged h (map src chain)"
proof -
  have "foldl (\<lambda>d p. if src p = Default then d else dict_update d (h (src p))) acc chain =
        foldl dict_update acc (map h (map src chain))" for acc
    using assms by (induction chain arbitrary: acc) simp_all
  then show ?thesis
    unfolding heap_updates_target merged_def using assms by simp
qed

text \<open>
  In a store whose two default dictionaries are empty, as they are before the first
  call, \<open>resolve\<close> computes what is specified.
\<close>

lemma resolve_as_specified_when_defaults_empty:
  assumes "parents \<noteq> []" and "pkgs_heap st Default = []" and "env_heap st Default = []"
  shows "resolves_as_specified (parents @ [self]) st (resolve self parents st)"
  using assms
  by (simp add: resolves_as_specified_def case_prod_beta resolve_def resolve_loop_name
      resolve_loop_command resolve_loop_pys resolve_loop_refs resolve_loop_pkgs_heap
      resolve_loop_env_heap Venv_new_def merged_when_default_empty
      del: foldl_append map_append)

text \<open>
  The walk changes no dictionary that the configuration passed to a constructor: only the
  dictionaries of the class-level defaults are written.
\<close>

lemma resolve_keeps_own_dictionaries:
  "pkgs_heap (snd (resolve self parents st)) (Own a) = pkgs_heap st (Own a)"
  "env_heap (snd (resolve self parents st)) (Own a) = env_heap st (Own a)"
  by (simp_all add: resolve_def resolve_loop_pkgs_heap resolve_loop_env_heap Venv_new_def
      heap_updates_frame del: foldl_append)

lemma instances_keep_own_dictionaries:
  fixes self :: "'py Venv" and vs :: "'py Venv list"
  shows "pkgs_heap (snd (instances pattern parents self st)) (Own a) = pkgs_heap st (Own a) \<and>
         env_heap (snd (instances pattern parents self st)) (Own a) = env_heap st (Own a)"
    and "pkgs_heap (snd (instances_venvs pattern chain vs st)) (Own a) = pkgs_heap st (Own a) \<and>
         env_heap (snd (instances_venvs pattern chain vs st)) (Own a) = env_heap st (Own a)"
proof (induction pattern parents self st and pattern chain vs st
       rule: instances_instances_venvs.induct)
  case (1 pattern parents n c p k e vs st)
  then show ?case
    by (simp add: instances_unfold Let_def resolve_keeps_own_dictionaries del: instances.simps)
next
  case (2 pattern chain st)
  then show ?case by simp
next
  case (3 pattern chain venv rest st)
  show ?case
  proof (cases "skipped pattern venv")
    case True
    with 3 show ?thesis by simp
  next
    case False
    with 3(2) 3(3) [OF False, of "fst (instances pattern chain venv st)"
        "snd (instances pattern chain venv st)"]
    show ?thesis by (simp add: instances_venvs_Cons del: instances_venvs.simps(2))
  qed
qed

text \<open>
  A configuration in which every node passes its own \<open>pkgs\<close>:
  \<^verbatim>\<open>
    venv = Venv(pkgs={"z": ["0"]}, venvs=[
        Venv(name="a", command="ca", pys=[3.8], pkgs={"x": ["1"]}),
        Venv(name="b", command="cb", pys=[3.8], pkgs={"y": ["2"]}),
    ])
  \<close>
\<close>

definition three_pkgs_store :: store where
  "three_pkgs_store =
     \<lparr>pkgs_heap = (\<lambda>_. [])(Own 0 := [(''z'', [Some ''0''])], Own 1 := [(''x'', [Some ''1''])],
                            Own 2 := [(''y'', [Some ''2''])]),
      env_heap = (\<lambda>_. [])\<rparr>"

definition venv_a :: "string Venv" where
  "venv_a = Venv (Some ''a'') (Some ''ca'') [''3.8''] (Own 1) Default []"

definition venv_b :: "string Venv" where
  "venv_b = Venv (Some ''b'') (Some ''cb'') [''3.8''] (Own 2) Default []"

definition venv_root :: "string Venv" where
  "venv_root = Venv None None [] (Own 0) Default [venv_a, venv_b]"

lemmas example_defs = three_pkgs_store_def venv_a_def venv_b_def venv_root_def

text \<open>
  Claim C2 does not hold of the code. \<open>Venv()\<close> in \<open>resolve\<close> takes the dictionaries of
  the class-level defaults, so what an earlier call wrote is still there: after \<open>a\<close> was
  resolved below the root, resolving \<open>b\<close> below the root gives the packages \<open>z\<close>, \<open>x\<close>
  and \<open>y\<close>, where the accumulation over the chain of \<open>b\<close> is \<open>z\<close> and \<open>y\<close>. One
  enumeration of the tree makes these two calls, and the instance of \<open>b\<close> carries \<open>x\<close>.
\<close>

theorem resolve_keeps_packages_of_earlier_calls:
  "pkgs_heap (snd (resolve venv_b [venv_root] (snd (resolve venv_a [venv_root] three_pkgs_store))))
     (Venv.pkgs (fst (resolve venv_b [venv_root]
        (snd (resolve venv_a [venv_root] three_pkgs_store))))) =
     [(''z'', [Some ''0'']), (''x'', [Some ''1'']), (''y'', [Some ''2''])] \<and>
   merged (pkgs_heap (snd (resolve venv_a [venv_root] three_pkgs_store)))
     (map Venv.pkgs [venv_root, venv_b]) = [(''z'', [Some ''0'']), (''y'', [Some ''2''])] \<and>
   \<not> resolves_as_specified [venv_root, venv_b]
       (snd (resolve venv_a [venv_root] three_pkgs_store))
       (resolve venv_b [venv_root] (snd (resolve venv_a [venv_root] three_pkgs_store))) \<and>
   map VenvInstance.pkgs (fst (instances (\<lambda>_. True) [] venv_root three_pkgs_store)) =
     [[(''z'', Some ''0''), (''x'', Some ''1'')],
      [(''z'', Some ''0''), (''x'', Some ''1''), (''y'', Some ''2'')]]"
  by (simp add: walk_defs example_defs merged_def resolves_as_specified_def)

text \<open>
  A configuration with nodes built without \<open>pkgs\<close>:
  \<^verbatim>\<open>
    venv = Venv(venvs=[
        Venv(name="a", command="ca", pys=[3.8], pkgs={"x": ["1"]}),
        Venv(name="b", command="cb", pys=[3.8]),
    ])
  \<close>
\<close>

definition one_pkg_store :: store where
  "one_pkg_store = \<lparr>pkgs_heap = (\<lambda>_. [])(Own 1 := [(''x'', [Some ''1''])]), env_heap = (\<lambda>_. [])\<rparr>"

definition with_pkg :: "string Venv" where
  "with_pkg = Venv (Some ''a'') (Some ''ca'') [''3.8''] (Own 1) Default []"

definition without_pkg :: "string Venv" where
  "without_pkg = Venv (Some ''b'') (Some ''cb'') [''3.8''] Default Default []"

definition two_siblings :: "string Venv" where
  "two_siblings = Venv None None [] Default Default [with_pkg, without_pkg]"

lemmas sibling_defs = one_pkg_store_def with_pkg_def without_pkg_def two_siblings_def

text \<open>
  Claim C3 does not hold of the code. The root and \<open>b\<close> hold the dictionary of the
  class-level default as their \<open>pkgs\<close>, and so does the node that \<open>resolve\<close> returns:
  resolving \<open>a\<close> below the root writes \<open>x\<close> into that dictionary, and the packages of
  the root and of \<open>b\<close>, empty before the call, hold \<open>x\<close> after it. The enumeration then
  gives \<open>b\<close> an instance with the package \<open>x\<close>.
\<close>

theorem resolve_changes_nodes_with_default_dictionaries:
  "pkgs_heap one_pkg_store (Venv.pkgs two_siblings) = [] \<and>
   pkgs_heap one_pkg_store (Venv.pkgs without_pkg) = [] \<and>
   pkgs_heap (snd (resolve with_pkg [two_siblings] one_pkg_store)) (Venv.pkgs two_siblings) =
     [(''x'', [Some ''1''])] \<and>
   pkgs_heap (snd (resolve with_pkg [two_siblings] one_pkg_store)) (Venv.pkgs without_pkg) =
     [(''x'', [Some ''1''])] \<and>
   Venv.pkgs (fst (resolve with_pkg [two_siblings] one_pkg_store)) = Venv.pkgs without_pkg \<and>
   map VenvInstance.pkgs (fst (instances (\<lambda>_. True) [] two_siblings one_pkg_store)) =
     [[(''x'', Some ''1'')], [(''x'', Some ''1'')]]"
  by (simp add: walk_defs sibling_defs)

section \<open>The session: names, commands and the run loop\<close>

subsection \<open>Strings\<close>

text \<open>\<open>s.replace(c, "")\<close> for a one-character \<open>c\<close>, and \<open>sep.join(xs)\<close>.\<close>

definition remove_char :: "char \<Rightarrow> string \<Rightarrow> string" where
  "remove_char c s = filter (\<lambda>x. x \<noteq> c) s"

fun join :: "string \<Rightarrow> string list \<Rightarrow> string" where
  "join sep [] = []"
| "join sep [x] = x"
| "join sep (x # y # ys) = x @ sep @ join sep (y # ys)"

text \<open>
  \<^verbatim>\<open>
    def rmchars(chars: str, s: str):
        for c in chars:
            s = s.replace(c, "")
        return s

    def get_pep_dep(libname: str, version: str):
        return f"{libname}{version}"

    def get_base_venv_path(pyversion):
        pyversion = str(pyversion).replace(".", "")
        return f".riot/.venv_py{pyversion}"

    def get_venv_command(venv_path, cmd):
        return f"source {venv_path}/bin/activate && {cmd}"
  \<close>
  \<open>str_py\<close> is \<open>str\<close> on interpreter versions.
\<close>

definition rmchars :: "string \<Rightarrow> string \<Rightarrow> string" where
  "rmchars chars s = foldl (\<lambda>acc c. remove_char c acc) s chars"

definition get_pep_dep :: "string \<Rightarrow> string \<Rightarrow> string" where
  "get_pep_dep libname version = libname @ version"

definition get_base_venv_path :: "('py \<Rightarrow> string) \<Rightarrow> 'py \<Rightarrow> string" where
  "get_base_venv_path str_py pyversion = ''.riot/.venv_py'' @ remove_char CHR ''.'' (str_py pyversion)"

definition get_venv_command :: "string \<Rightarrow> string \<Rightarrow> string" where
  "get_venv_command venv_path cmd = ''source '' @ venv_path @ ''/bin/activate && '' @ cmd"

subsection \<open>Running commands\<close>

text \<open>
  \<open>subprocess.run\<close> is the boundary of the model: given what \<open>run_cmd\<close> passes on, it
  returns a completed process with its return code, or raises. A call is a list of
  arguments (\<open>Argv\<close>), or a shell command line with the keyword arguments \<open>env\<close> and
  \<open>cmdargs\<close> when they are given (\<open>Shell\<close>); with \<open>cmdargs\<close> given, \<open>run_cmd\<close> formats
  the command line with it first, and an error of the formatting is an exception like any
  other. The messages of the exceptions and the captured output are left out.
  \<^verbatim>\<open>
    def run_cmd(*args, **kwargs):
        ...
        r = subprocess.run(*args, **kwargs)
        if r.returncode != 0:
            raise CmdFailure("Command %s failed with code %s." % (args[0], r.returncode), r)
        return r

    def run_cmd_venv(venv, cmd, **kwargs):
        cmd = get_venv_command(venv, cmd)
        r = run_cmd(cmd, shell=True, **kwargs)
        return r
  \<close>
\<close>

datatype invocation =
  Argv "string list"
| Shell string "string pydict option" "string option option"

datatype fault = NotFound | Interrupt | Failure

datatype outcome = Exited int | Raised fault

datatype exn = CmdFailure int | FileNotFoundError | KeyboardInterrupt | Exception

definition exn_of :: "fault \<Rightarrow> exn" where
  "exn_of f = (case f of NotFound \<Rightarrow> FileNotFoundError | Interrupt \<Rightarrow> KeyboardInterrupt
               | Failure \<Rightarrow> Exception)"

definition run_cmd :: "(invocation \<Rightarrow> outcome) \<Rightarrow> invocation \<Rightarrow> exn + unit" where
  "run_cmd subprocess_run call =
     (case subprocess_run call of
        Raised f \<Rightarrow> Inl (exn_of f)
      | Exited returncode \<Rightarrow> if returncode \<noteq> 0 then Inl (CmdFailure returncode) else Inr ())"

definition run_cmd_venv ::
    "(invocation \<Rightarrow> outcome) \<Rightarrow> string \<Rightarrow> string \<Rightarrow> string pydict option \<Rightarrow>
     string option option \<Rightarrow> exn + unit" where
  "run_cmd_venv subprocess_run venv cmd kw_env kw_cmdargs =
     run_cmd subprocess_run (Shell (get_venv_command venv cmd) kw_env kw_cmdargs)"

text \<open>
  The world outside the process: the file system tests of \<open>create_base_venv\<close>, the
  environment of the process, and what the external commands do. The commands of the
  provisioning step answer by what is run; the commands of the run loop answer by the
  position of the instance in the enumeration and by what is run.
\<close>

record world =
  isdir :: "string \<Rightarrow> bool"
  which :: "string \<Rightarrow> string option"
  os_environ :: "string pydict"
  provision :: "invocation \<Rightarrow> outcome"
  execute :: "nat \<Rightarrow> invocation \<Rightarrow> outcome"

subsection \<open>Provisioning the base environments\<close>

text \<open>
  \<^verbatim>\<open>
    def create_base_venv(pyversion, path=None, recreate=True):
        path = path or get_base_venv_path(pyversion)
        if os.path.isdir(path) and not recreate:
            return path
        py_ex = f"python{pyversion}"
        py_ex = shutil.which(py_ex)
        if not py_ex:
            raise FileNotFoundError
        r = run_cmd(["virtualenv", f"--python={py_ex}", path], stdout=subprocess.PIPE)
        return path
  \<close>
\<close>

definition create_base_venv :: "('py \<Rightarrow> string) \<Rightarrow> world \<Rightarrow> 'py \<Rightarrow> bool \<Rightarrow> exn + string" where
  "create_base_venv str_py w pyversion recreate =
     (let path = get_base_venv_path str_py pyversion in
      if isdir w path \<and> \<not> recreate then Inr path
      else case which w (''python'' @ str_py pyversion) of
             None \<Rightarrow> Inl FileNotFoundError
           | Some py_ex \<Rightarrow>
               if py_ex = [] then Inl FileNotFoundError
               else case run_cmd (provision w) (Argv [''virtualenv'', ''--python='' @ py_ex, path]) of
                      Inl e \<Rightarrow> Inl e
                    | Inr _ \<Rightarrow> Inr path)"

text \<open>How a call of \<open>run\<close> or \<open>generate_base_venvs\<close> ends.\<close>

datatype ending = Returned | SysExit int | Uncaught exn

text \<open>
  The loop of \<open>generate_base_venvs\<close> over the required versions:
  \<^verbatim>\<open>
    for py in required_pys:
        try:
            venv_path = create_base_venv(py, recreate=recreate)
        except CmdFailure as e:
            logger.error("Failed to create virtual environment.\n%s", e.proc.stdout)
        except FileNotFoundError:
            logger.error("Python version '%s' not found.", py)
        else:
            if skip_deps:
                continue
            try:
                run_cmd_venv(venv_path, "pip --disable-pip-version-check install -e .")
            except CmdFailure as e:
                sys.exit(1)
  \<close>
  \<open>Inl\<close> is an end of the process inside the loop.
\<close>

fun provision_loop ::
    "('py \<Rightarrow> string) \<Rightarrow> world \<Rightarrow> bool \<Rightarrow> bool \<Rightarrow> 'py list \<Rightarrow> ending + unit" where
  "provision_loop str_py w recreate skip_deps [] = Inr ()"
| "provision_loop str_py w recreate skip_deps (py' # rest) =
     (case create_base_venv str_py w py' recreate of
        Inl (CmdFailure _) \<Rightarrow> provision_loop str_py w recreate skip_deps rest
      | Inl FileNotFoundError \<Rightarrow> provision_loop str_py w recreate skip_deps rest
      | Inl e \<Rightarrow> Inl (Uncaught e)
      | Inr venv_path \<Rightarrow>
          if skip_deps then provision_loop str_py w recreate skip_deps rest
          else case run_cmd_venv (provision w) venv_path
                      ''pip --disable-pip-version-check install -e .'' None None of
                 Inl (CmdFailure _) \<Rightarrow> Inl (SysExit 1)
               | Inl e \<Rightarrow> Inl (Uncaught e)
               | Inr _ \<Rightarrow> provision_loop str_py w recreate skip_deps rest)"

text \<open>
  \<^verbatim>\<open>
    def generate_base_venvs(self, pattern, recreate, skip_deps, pythons):
        required_pys = set([inst.py for inst in self.venv.instances(pattern=pattern)])
        if pythons:
            required_pys = required_pys.intersection(pythons)
        (the loop above)
  \<close>
  The code does not fix the order in which the set is walked; the model walks the
  versions, each once, in the order that \<open>remdups\<close> leaves. The enumeration is one more
  walk of the tree and leaves its store behind.
\<close>

definition generate_base_venvs ::
    "('py \<Rightarrow> string) \<Rightarrow> world \<Rightarrow> (string \<Rightarrow> bool) \<Rightarrow> bool \<Rightarrow> bool \<Rightarrow> 'py list \<Rightarrow>
     'py Venv \<Rightarrow> store \<Rightarrow> ending + store" where
  "generate_base_venvs str_py w pattern recreate skip_deps pythons venv st =
     (case instances pattern [] venv st of (insts, st1) \<Rightarrow>
        let required_pys = remdups (map py insts);
            required_pys' = (if pythons \<noteq> [] then filter (\<lambda>v. v \<in> set pythons) required_pys
                             else required_pys)
        in case provision_loop str_py w recreate skip_deps required_pys' of
             Inl e \<Rightarrow> Inl e
           | Inr _ \<Rightarrow> Inr st1)"

subsection \<open>\<open>Session.run\<close>\<close>

text \<open>
  \<^verbatim>\<open>
    @attr.s
    class VenvInstanceResult:
        instance: VenvInstance = attr.ib()
        venv_name: str = attr.ib()
        pkgstr: str = attr.ib()
        code: int = attr.ib(default=1)
  \<close>
  The field \<open>instance\<close> is called \<open>inst\<close> here.
\<close>

record 'py VenvInstanceResult =
  inst :: "'py VenvInstance"
  venv_name :: string
  pkgstr :: string
  code :: int

text \<open>The options of \<open>run\<close>.\<close>

record 'py run_options =
  skip_base_install :: bool
  recreate_venvs :: bool
  pass_env :: bool
  cmdargs :: "string option"
  pythons :: "'py list"

text \<open>
  The packages of an instance, and the names made from them:
  \<^verbatim>\<open>
    base_venv = get_base_venv_path(inst.py)
    pkgs: t.Dict[str, str] = {
        name: version for name, version in inst.pkgs if version is not None
    }
    if pkgs:
        venv_postfix = "_".join(
            [f"{n}{rmchars('<=>.,', v)}" for n, v in pkgs.items()]
        )
        venv_name = f"{base_venv}_{venv_postfix}"
        pkg_str = " ".join(
            [f"'{get_pep_dep(lib, version)}'" for lib, version in pkgs.items()]
        )
    else:
        venv_name = base_venv
        pkg_str = ""
    result = VenvInstanceResult(instance=inst, venv_name=venv_name, pkgstr=pkg_str)
  \<close>
\<close>

definition selected_pkgs :: "'py VenvInstance \<Rightarrow> string pydict" where
  "selected_pkgs i =
     foldl (\<lambda>d (name, version). case version of None \<Rightarrow> d | Some v \<Rightarrow> dict_set name v d)
       [] (pkgs i)"

definition make_venv_name :: "('py \<Rightarrow> string) \<Rightarrow> 'py VenvInstance \<Rightarrow> string" where
  "make_venv_name str_py i =
     (let base_venv = get_base_venv_path str_py (py i); pkgs' = selected_pkgs i in
      if pkgs' \<noteq> [] then
        base_venv @ ''_'' @ join ''_'' (map (\<lambda>(n, v). n @ rmchars ''<=>.,'' v) pkgs')
      else base_venv)"

definition make_pkg_str :: "'py VenvInstance \<Rightarrow> string" where
  "make_pkg_str i =
     (let pkgs' = selected_pkgs i in
      if pkgs' \<noteq> [] then
        join '' '' (map (\<lambda>(lib, version). [CHR 0x27] @ get_pep_dep lib version @ [CHR 0x27]) pkgs')
      else [])"

definition new_result :: "('py \<Rightarrow> string) \<Rightarrow> 'py VenvInstance \<Rightarrow> 'py VenvInstanceResult" where
  "new_result str_py i =
     \<lparr>inst = i, venv_name = make_venv_name str_py i, pkgstr = make_pkg_str i, code = 1\<rparr>"

text \<open>
  The environment of the command:
  \<^verbatim>\<open>
    env = os.environ.copy() if pass_env else {}
    for k, v in inst.env:
        resolved_val = v(AttrDict(pkgs=pkgs)) if callable(v) else v
        if resolved_val is not None:
            env[k] = resolved_val
  \<close>
\<close>

fun build_env :: "(string \<times> env_val) list \<Rightarrow> string pydict \<Rightarrow> string pydict \<Rightarrow> exn + string pydict"
where
  "build_env [] pkgs' env' = Inr env'"
| "build_env ((k, v) # rest) pkgs' env' =
     (case (case v of Literal l \<Rightarrow> Returns l | Callable f \<Rightarrow> f pkgs') of
        Raises \<Rightarrow> Inl Exception
      | Returns None \<Rightarrow> build_env rest pkgs' env'
      | Returns (Some resolved_val) \<Rightarrow> build_env rest pkgs' (dict_set k resolved_val env'))"

text \<open>
  The body of the \<open>try\<close> statement, for the instance at position \<open>pos\<close> of the
  enumeration; \<open>prepare_venv\<close> is its first block, under \<open>if pkgs\<close>. \<open>Inl\<close> is the
  exception that leaves the body. The handlers that wrap a \<open>CmdFailure\<close> into a new one
  keep its process, so its code.
  \<^verbatim>\<open>
    if pkgs:
        try:
            run_cmd(["cp", "-r", base_venv, venv_name], stdout=subprocess.PIPE)
        except CmdFailure as e:
            raise CmdFailure(f"Failed to create virtualenv ...", e.proc)
        try:
            run_cmd_venv(venv_name, f"pip --disable-pip-version-check install {pkg_str}")
        except CmdFailure as e:
            raise CmdFailure(f"Failed to install venv dependencies ...", e.proc)
    (the environment, above)
    cmd = inst.command
    try:
        run_cmd_venv(venv_name, cmd, stdout=out, env=env, cmdargs=cmdargs)
    except CmdFailure as e:
        raise CmdFailure(f"Test failed with exit code {e.proc.returncode}", e.proc)
  \<close>
\<close>

definition clone_call :: "('py \<Rightarrow> string) \<Rightarrow> 'py VenvInstance \<Rightarrow> invocation" where
  "clone_call str_py i =
     Argv [''cp'', ''-r'', get_base_venv_path str_py (py i), make_venv_name str_py i]"

definition install_command :: "'py VenvInstance \<Rightarrow> string" where
  "install_command i = ''pip --disable-pip-version-check install '' @ make_pkg_str i"

definition prepare_venv :: "('py \<Rightarrow> string) \<Rightarrow> world \<Rightarrow> nat \<Rightarrow> 'py VenvInstance \<Rightarrow> exn + unit" where
  "prepare_venv str_py w pos i =
     (if selected_pkgs i \<noteq> [] then
        case run_cmd (execute w pos) (clone_call str_py i) of
          Inl e \<Rightarrow> Inl e
        | Inr _ \<Rightarrow>
            run_cmd_venv (execute w pos) (make_venv_name str_py i) (install_command i) None None
      else Inr ())"

definition try_body ::
    "('py \<Rightarrow> string) \<Rightarrow> world \<Rightarrow> 'py run_options \<Rightarrow> nat \<Rightarrow> 'py VenvInstance \<Rightarrow> exn + unit" where
  "try_body str_py w opts pos i =
     (case prepare_venv str_py w pos i of
        Inl e \<Rightarrow> Inl e
      | Inr _ \<Rightarrow>
          (case build_env (env i) (selected_pkgs i) (if pass_env opts then os_environ w else []) of
             Inl e \<Rightarrow> Inl e
           | Inr env' \<Rightarrow>
               run_cmd_venv (execute w pos) (make_venv_name str_py i) (command i)
                 (Some env') (Some (cmdargs opts))))"

text \<open>
  One pass through the body of the loop for an instance that is not skipped: the result
  that is appended, and how the loop goes on.
  \<^verbatim>\<open>
    try:
        ...
    except CmdFailure as e:
        result.code = e.code
        print(e.msg, file=out)
    except KeyboardInterrupt:
        result.code = 1
        break
    except Exception as e:
        logger.error("Test runner failed: %s", e, exc_info=True)
        sys.exit(1)
    else:
        result.code = 0
    finally:
        results.append(result)
  \<close>
\<close>

datatype control = Continue | Break | Exit

definition run_instance ::
    "('py \<Rightarrow> string) \<Rightarrow> world \<Rightarrow> 'py run_options \<Rightarrow> nat \<Rightarrow> 'py VenvInstance \<Rightarrow>
     'py VenvInstanceResult \<times> control" where
  "run_instance str_py w opts pos i =
     (let result = new_result str_py i in
      case try_body str_py w opts pos i of
        Inl (CmdFailure c) \<Rightarrow> (result\<lparr>code := c\<rparr>, Continue)
      | Inl KeyboardInterrupt \<Rightarrow> (result\<lparr>code := 1\<rparr>, Break)
      | Inl FileNotFoundError \<Rightarrow> (result, Exit)
      | Inl Exception \<Rightarrow> (result, Exit)
      | Inr _ \<Rightarrow> (result\<lparr>code := 0\<rparr>, Continue))"

text \<open>
  The loop, from the instance at position \<open>pos\<close> on, with the results so far:
  \<^verbatim>\<open>
    for inst in self.venv.instances(pattern=pattern):
        if pythons and inst.py not in pythons:
            continue
        ...
  \<close>
\<close>

fun run_loop ::
    "('py \<Rightarrow> string) \<Rightarrow> world \<Rightarrow> 'py run_options \<Rightarrow> nat \<Rightarrow> 'py VenvInstance list \<Rightarrow>
     'py VenvInstanceResult list \<Rightarrow> 'py VenvInstanceResult list \<times> control" where
  "run_loop str_py w opts pos [] results = (results, Continue)"
| "run_loop str_py w opts pos (i # rest) results =
     (if pythons opts \<noteq> [] \<and> py i \<notin> set (pythons opts)
      then run_loop str_py w opts (Suc pos) rest results
      else case run_instance str_py w opts pos i of
             (result, Continue) \<Rightarrow> run_loop str_py w opts (Suc pos) rest (results @ [result])
           | (result, Break) \<Rightarrow> (results @ [result], Break)
           | (result, Exit) \<Rightarrow> (results @ [result], Exit))"

text \<open>
  What a call of \<open>run\<close> leaves: the list \<open>results\<close>, the lines of the summary when it
  is printed (each result with its mark, true for a failed one), and how the call ends.
  \<^verbatim>\<open>
    results = []
    self.generate_base_venvs(pattern, recreate=recreate_venvs,
                             skip_deps=skip_base_install, pythons=pythons)
    (the loop)
    print("\n-------------------summary-------------------", file=out)
    for r in results:
        failed = r.code != 0
        ...
        print(s, file=out)
    if any(True for r in results if r.code != 0):
        sys.exit(1)
  \<close>
\<close>

record 'py report =
  results :: "'py VenvInstanceResult list"
  summary :: "(bool \<times> 'py VenvInstanceResult) list option"
  ending :: ending

definition run ::
    "('py \<Rightarrow> string) \<Rightarrow> world \<Rightarrow> (string \<Rightarrow> bool) \<Rightarrow> 'py run_options \<Rightarrow> 'py Venv \<Rightarrow> store \<Rightarrow>
     'py report" where
  "run str_py w pattern opts venv st =
     (case generate_base_venvs str_py w pattern (recreate_venvs opts) (skip_base_install opts)
             (pythons opts) venv st of
        Inl e \<Rightarrow> \<lparr>results = [], summary = None, ending = e\<rparr>
      | Inr st1 \<Rightarrow>
          (case run_loop str_py w opts 0 (fst (instances pattern [] venv st1)) [] of
             (rs, Exit) \<Rightarrow> \<lparr>results = rs, summary = None, ending = SysExit 1\<rparr>
           | (rs, _) \<Rightarrow>
               \<lparr>results = rs, summary = Some (map (\<lambda>r. (code r \<noteq> 0, r)) rs),
                ending = (if \<exists>r\<in>set rs. code r \<noteq> 0 then SysExit 1 else Returned)\<rparr>))"

text \<open>
  The exit status of the process: zero when \<open>run\<close> returns, the argument of
  \<open>sys.exit\<close>, and a status other than zero (here 1) when an exception is not caught.
\<close>

definition exit_status :: "ending \<Rightarrow> int" where
  "exit_status e = (case e of Returned \<Rightarrow> 0 | SysExit n \<Rightarrow> n | Uncaught _ \<Rightarrow> 1)"

section \<open>Properties of the session\<close>

subsection \<open>Derived environment names\<close>

lemma rmchars_filter: "rmchars chars s = filter (\<lambda>x. x \<notin> set chars) s"
proof -
  have "foldl (\<lambda>acc c. remove_char c acc) s chars = filter (\<lambda>x. x \<notin> set chars) s" for s
    by (induction chars arbitrary: s) (auto simp: remove_char_def intro: filter_cong)
  then show ?thesis by (simp add: rmchars_def)
qed

lemma split_at_first:
  "c \<notin> set xs \<Longrightarrow> c \<notin> set xs' \<Longrightarrow> xs @ c # ys = xs' @ c # ys' \<Longrightarrow> xs = xs' \<and> ys = ys'"
proof (induction xs arbitrary: xs')
  case Nil
  then show ?case by (cases xs') auto
next
  case (Cons x xs)
  then show ?case by (cases xs') auto
qed

lemma join_tokens_inject:
  assumes "length vs1 = length ns" and "length vs2 = length ns"
    and "\<forall>v\<in>set vs1 \<union> set vs2. c \<notin> set v"
    and "join [c] (map2 (@) ns vs1) = join [c] (map2 (@) ns vs2)"
  shows "vs1 = vs2"
  using assms
proof (induction ns arbitrary: vs1 vs2)
  case Nil
  then show ?case by simp
next
  case (Cons n ns)
  from Cons.prems(1,2) obtain v1 vs1' v2 vs2' where vs: "vs1 = v1 # vs1'" "vs2 = v2 # vs2'"
    by (metis length_Suc_conv)
  show ?case
  proof (cases ns)
    case Nil
    with Cons.prems vs show ?thesis by simp
  next
    case (Cons n' ns')
    with Cons.prems(1,2) vs obtain w1 ws1 w2 ws2 where ws: "vs1' = w1 # ws1" "vs2' = w2 # ws2"
      by (metis length_Suc_conv length_Cons nat.inject)
    from Cons.prems(3) vs have c1: "c \<notin> set v1" and c2: "c \<notin> set v2" by auto
    from Cons.prems(4) vs ws Cons
    have "v1 @ c # join [c] (map2 (@) ns vs1') = v2 @ c # join [c] (map2 (@) ns vs2')"
      by simp
    from split_at_first [OF c1 c2 this]
    have "v1 = v2" and eq: "join [c] (map2 (@) ns vs1') = join [c] (map2 (@) ns vs2')"
      by simp_all
    from Cons.prems(1,2,3) vs have "vs1' = vs2'"
      by (intro Cons.IH [OF _ _ _ eq]) auto
    with \<open>v1 = v2\<close> vs show ?thesis by simp
  qed
qed

lemma tokens_as_map2:
  "map (\<lambda>(n, v). n @ f v) ps = map2 (@) (map fst ps) (map (f \<circ> snd) ps)"
  by (induction ps) auto

lemma venv_name_run_instance:
  "venv_name (fst (run_instance str_py w opts pos i)) = make_venv_name str_py i"
  by (simp add: run_instance_def Let_def new_result_def split: sum.splits exn.splits)

lemma make_venv_name_inject:
  assumes "py i1 = py i2"
    and names: "map fst (selected_pkgs i1) = map fst (selected_pkgs i2)"
    and clean: "\<forall>v \<in> snd ` (set (selected_pkgs i1) \<union> set (selected_pkgs i2)). CHR ''_'' \<notin> set v"
  shows "make_venv_name str_py i1 = make_venv_name str_py i2 \<longleftrightarrow>
         map (rmchars ''<=>.,'' \<circ> snd) (selected_pkgs i1) =
         map (rmchars ''<=>.,'' \<circ> snd) (selected_pkgs i2)"
proof -
  let ?r = "rmchars ''<=>.,''"
  let ?tok = "\<lambda>i. map (\<lambda>(n, v). n @ ?r v) (selected_pkgs i)"
  from names have empty: "selected_pkgs i1 = [] \<longleftrightarrow> selected_pkgs i2 = []"
    by (metis map_is_Nil_conv)
  have name_eq: "make_venv_name str_py i1 = make_venv_name str_py i2 \<longleftrightarrow>
                 join ''_'' (?tok i1) = join ''_'' (?tok i2)"
    using assms(1) empty by (auto simp: make_venv_name_def Let_def)
  have tok: "?tok i = map2 (@) (map fst (selected_pkgs i)) (map (?r \<circ> snd) (selected_pkgs i))" for i
    by (rule tokens_as_map2)
  have no_sep: "\<forall>v\<in>set (map (?r \<circ> snd) (selected_pkgs i1)) \<union> set (map (?r \<circ> snd) (selected_pkgs i2)).
                  CHR ''_'' \<notin> set v"
  proof
    fix v
    assume "v \<in> set (map (?r \<circ> snd) (selected_pkgs i1)) \<union> set (map (?r \<circ> snd) (selected_pkgs i2))"
    then obtain p where p: "p \<in> set (selected_pkgs i1) \<union> set (selected_pkgs i2)" and v: "v = ?r (snd p)"
      by auto
    from p clean have "CHR ''_'' \<notin> set (snd p)" by blast
    with v show "CHR ''_'' \<notin> set v" by (simp add: rmchars_filter)
  qed
  show ?thesis
  proof
    assume "make_venv_name str_py i1 = make_venv_name str_py i2"
    with name_eq have "join ''_'' (map2 (@) (map fst (selected_pkgs i1)) (map (?r \<circ> snd) (selected_pkgs i1))) =
          join ''_'' (map2 (@) (map fst (selected_pkgs i1)) (map (?r \<circ> snd) (selected_pkgs i2)))"
      by (simp add: tok names)
    moreover have "length (map (?r \<circ> snd) (selected_pkgs i1)) = length (map fst (selected_pkgs i1))"
      by simp
    moreover have "length (map (?r \<circ> snd) (selected_pkgs i2)) = length (map fst (selected_pkgs i1))"
      unfolding names by simp
    ultimately show "map (?r \<circ> snd) (selected_pkgs i1) = map (?r \<circ> snd) (selected_pkgs i2)"
      using no_sep join_tokens_inject [of "map (?r \<circ> snd) (selected_pkgs i1)"
          "map fst (selected_pkgs i1)" "map (?r \<circ> snd) (selected_pkgs i2)" "CHR ''_''"]
      by blast
  next
    assume "map (?r \<circ> snd) (selected_pkgs i1) = map (?r \<circ> snd) (selected_pkgs i2)"
    with names have "?tok i1 = ?tok i2" by (simp only: tok)
    with name_eq show "make_venv_name str_py i1 = make_venv_name str_py i2" by simp
  qed
qed

text \<open>
  Claim C8, as amended. Two instances with the same interpreter and the same selected
  packages (the pairs of \<open>inst.pkgs\<close> whose version is not \<open>None\<close>) get the same
  environment name in \<open>Session.run\<close>. Two instances with the same interpreter and the same
  package names in the same order, whose versions have no underscore, get the same name
  exactly when every version is the same after the characters \<open><=>.,\<close> are removed: a
  difference that these characters make alone does not show in the name.
\<close>

theorem derived_venv_names:
  assumes "py i1 = py i2"
  shows "(selected_pkgs i1 = selected_pkgs i2 \<longrightarrow>
            venv_name (fst (run_instance str_py w opts pos i1)) =
            venv_name (fst (run_instance str_py w' opts' pos' i2))) \<and>
         (map fst (selected_pkgs i1) = map fst (selected_pkgs i2) \<and>
          (\<forall>v \<in> snd ` (set (selected_pkgs i1) \<union> set (selected_pkgs i2)). CHR ''_'' \<notin> set v) \<longrightarrow>
            (venv_name (fst (run_instance str_py w opts pos i1)) =
             venv_name (fst (run_instance str_py w' opts' pos' i2)) \<longleftrightarrow>
             map (rmchars ''<=>.,'' \<circ> snd) (selected_pkgs i1) =
             map (rmchars ''<=>.,'' \<circ> snd) (selected_pkgs i2)))"
proof (intro conjI impI)
  assume "selected_pkgs i1 = selected_pkgs i2"
  with assms show "venv_name (fst (run_instance str_py w opts pos i1)) =
      venv_name (fst (run_instance str_py w' opts' pos' i2))"
    by (simp add: venv_name_run_instance make_venv_name_def)
next
  assume "map fst (selected_pkgs i1) = map fst (selected_pkgs i2) \<and>
          (\<forall>v \<in> snd ` (set (selected_pkgs i1) \<union> set (selected_pkgs i2)). CHR ''_'' \<notin> set v)"
  then have "make_venv_name str_py i1 = make_venv_name str_py i2 \<longleftrightarrow>
             map (rmchars ''<=>.,'' \<circ> snd) (selected_pkgs i1) =
             map (rmchars ''<=>.,'' \<circ> snd) (selected_pkgs i2)"
    using make_venv_name_inject [OF assms, of str_py] by blast
  then show "venv_name (fst (run_instance str_py w opts pos i1)) =
             venv_name (fst (run_instance str_py w' opts' pos' i2)) \<longleftrightarrow>
             map (rmchars ''<=>.,'' \<circ> snd) (selected_pkgs i1) =
             map (rmchars ''<=>.,'' \<circ> snd) (selected_pkgs i2)"
    by (simp only: venv_name_run_instance)
qed

text \<open>
  A world in which every directory exists and every command exits with 0, and the
  options that \<open>run\<close> has by default.
\<close>

definition quiet_world :: world where
  "quiet_world = \<lparr>isdir = (\<lambda>_. True), which = (\<lambda>_. None), os_environ = [],
     provision = (\<lambda>_. Exited 0), execute = (\<lambda>_ _. Exited 0)\<rparr>"

definition plain_options :: "string run_options" where
  "plain_options = \<lparr>skip_base_install = False, recreate_venvs = False, pass_env = False,
     cmdargs = None, pythons = []\<rparr>"

lemmas run_defs = run_instance_def try_body_def prepare_venv_def new_result_def make_venv_name_def make_pkg_str_def
  selected_pkgs_def get_base_venv_path_def remove_char_def rmchars_def get_pep_dep_def
  run_cmd_venv_def run_cmd_def get_venv_command_def clone_call_def install_command_def exn_of_def
  quiet_world_def plain_options_def

text \<open>
  Same interpreter and same selected packages (a package with version \<open>None\<close> is not
  selected): same name. Versions \<open>>=1.0\<close> and \<open>>=2.0\<close>: different names.
\<close>

theorem derived_venv_names_witness:
  "venv_name (fst (run_instance (\<lambda>v. v) quiet_world plain_options 0
     \<lparr>VenvInstance.name = Some ''t'', py = ''3.8'', command = ''cmd'', env = [],
      pkgs = [(''pkgA'', Some ''>=1.0''), (''pkgB'', None)]\<rparr>)) =
   venv_name (fst (run_instance (\<lambda>v. v) quiet_world plain_options 1
     \<lparr>VenvInstance.name = Some ''u'', py = ''3.8'', command = ''other'', env = [],
      pkgs = [(''pkgA'', Some ''>=1.0'')]\<rparr>)) \<and>
   venv_name (fst (run_instance (\<lambda>v. v) quiet_world plain_options 0
     \<lparr>VenvInstance.name = Some ''t'', py = ''3.8'', command = ''cmd'', env = [],
      pkgs = [(''pkgA'', Some ''>=1.0''), (''pkgB'', None)]\<rparr>)) \<noteq>
   venv_name (fst (run_instance (\<lambda>v. v) quiet_world plain_options 1
     \<lparr>VenvInstance.name = Some ''u'', py = ''3.8'', command = ''other'', env = [],
      pkgs = [(''pkgA'', Some ''>=2.0'')]\<rparr>))"
proof -
  let ?i1 = "\<lparr>VenvInstance.name = Some ''t'', py = ''3.8'', command = ''cmd'', env = [],
      pkgs = [(''pkgA'', Some ''>=1.0''), (''pkgB'', None)]\<rparr>"
  let ?i2 = "\<lparr>VenvInstance.name = Some ''u'', py = ''3.8'', command = ''other'', env = [],
      pkgs = [(''pkgA'', Some ''>=1.0'')]\<rparr>"
  let ?i3 = "\<lparr>VenvInstance.name = Some ''u'', py = ''3.8'', command = ''other'', env = [],
      pkgs = [(''pkgA'', Some ''>=2.0'')]\<rparr>"
  have same_py: "py ?i1 = py ?i2" "py ?i1 = py ?i3" by simp_all
  have sel: "selected_pkgs ?i1 = [(''pkgA'', ''>=1.0'')]" "selected_pkgs ?i2 = [(''pkgA'', ''>=1.0'')]"
    "selected_pkgs ?i3 = [(''pkgA'', ''>=2.0'')]"
    by (simp_all add: selected_pkgs_def)
  from derived_venv_names [OF same_py(1), of "\<lambda>v. v" quiet_world plain_options 0 quiet_world plain_options 1]
  have a: "venv_name (fst (run_instance (\<lambda>v. v) quiet_world plain_options 0 ?i1)) =
           venv_name (fst (run_instance (\<lambda>v. v) quiet_world plain_options 1 ?i2))"
    by (simp add: sel)
  from derived_venv_names [OF same_py(2), of "\<lambda>v. v" quiet_world plain_options 0 quiet_world plain_options 1]
  have b: "venv_name (fst (run_instance (\<lambda>v. v) quiet_world plain_options 0 ?i1)) \<noteq>
           venv_name (fst (run_instance (\<lambda>v. v) quiet_world plain_options 1 ?i3))"
    by (simp add: sel rmchars_def remove_char_def)
  from a b show ?thesis by blast
qed

text \<open>
  The claim as it stands fails: the constraints \<open><1.0\<close> and \<open>>=1.0\<close> on the same
  package are different assignments, and both instances get the name
  \<open>.riot/.venv_py38_pkgA10\<close>.
\<close>

theorem stripped_versions_collide:
  "py \<lparr>VenvInstance.name = Some ''t'', py = ''3.8'', command = ''cmd'', env = [],
       pkgs = [(''pkgA'', Some ''<1.0'')]\<rparr> =
   py \<lparr>VenvInstance.name = Some ''t'', py = ''3.8'', command = ''cmd'', env = [],
       pkgs = [(''pkgA'', Some ''>=1.0'')]\<rparr> \<and>
   selected_pkgs \<lparr>VenvInstance.name = Some ''t'', py = ''3.8'', command = ''cmd'', env = [],
       pkgs = [(''pkgA'', Some ''<1.0'')]\<rparr> = [(''pkgA'', ''<1.0'')] \<and>
   selected_pkgs \<lparr>VenvInstance.name = Some ''t'', py = ''3.8'', command = ''cmd'', env = [],
       pkgs = [(''pkgA'', Some ''>=1.0'')]\<rparr> = [(''pkgA'', ''>=1.0'')] \<and>
   venv_name (fst (run_instance (\<lambda>v. v) quiet_world plain_options 0
     \<lparr>VenvInstance.name = Some ''t'', py = ''3.8'', command = ''cmd'', env = [],
      pkgs = [(''pkgA'', Some ''<1.0'')]\<rparr>)) = ''.riot/.venv_py38_pkgA10'' \<and>
   venv_name (fst (run_instance (\<lambda>v. v) quiet_world plain_options 1
     \<lparr>VenvInstance.name = Some ''t'', py = ''3.8'', command = ''cmd'', env = [],
      pkgs = [(''pkgA'', Some ''>=1.0'')]\<rparr>)) = ''.riot/.venv_py38_pkgA10''"
  by (simp add: run_defs)

subsection \<open>What happens to one instance\<close>

text \<open>
  The events of the claims, as what the external commands of an instance do.
  \<open>taken\<close>: the instance is not skipped by the interpreter filter. \<open>clone_gives\<close>: the
  instance selects packages and the copy of the base environment ends as given.
  \<open>install_gives\<close>: the copy succeeded and the installation of the packages ends as
  given. \<open>command_gives\<close>: the environment is ready (no package selected, or copied and
  installed), the environment variables are computed, and the command of the instance
  ends as given. \<open>instance_fails\<close>: one of the three exits with the code \<open>c\<close>, which is
  not zero. \<open>interrupted\<close>: one of the three is interrupted by the user.
\<close>

definition taken :: "'py run_options \<Rightarrow> 'py VenvInstance \<Rightarrow> bool" where
  "taken opts i \<longleftrightarrow> pythons opts = [] \<or> py i \<in> set (pythons opts)"

definition install_call :: "('py \<Rightarrow> string) \<Rightarrow> 'py VenvInstance \<Rightarrow> invocation" where
  "install_call str_py i =
     Shell (get_venv_command (make_venv_name str_py i) (install_command i)) None None"

definition command_call ::
    "('py \<Rightarrow> string) \<Rightarrow> 'py run_options \<Rightarrow> 'py VenvInstance \<Rightarrow> string pydict \<Rightarrow> invocation" where
  "command_call str_py opts i env' =
     Shell (get_venv_command (make_venv_name str_py i) (command i)) (Some env')
       (Some (cmdargs opts))"

definition clone_gives ::
    "('py \<Rightarrow> string) \<Rightarrow> world \<Rightarrow> nat \<Rightarrow> 'py VenvInstance \<Rightarrow> outcome \<Rightarrow> bool" where
  "clone_gives str_py w pos i out \<longleftrightarrow>
     selected_pkgs i \<noteq> [] \<and> execute w pos (clone_call str_py i) = out"

definition install_gives ::
    "('py \<Rightarrow> string) \<Rightarrow> world \<Rightarrow> nat \<Rightarrow> 'py VenvInstance \<Rightarrow> outcome \<Rightarrow> bool" where
  "install_gives str_py w pos i out \<longleftrightarrow>
     clone_gives str_py w pos i (Exited 0) \<and> execute w pos (install_call str_py i) = out"

definition command_gives ::
    "('py \<Rightarrow> string) \<Rightarrow> world \<Rightarrow> 'py run_options \<Rightarrow> nat \<Rightarrow> 'py VenvInstance \<Rightarrow> outcome \<Rightarrow> bool"
where
  "command_gives str_py w opts pos i out \<longleftrightarrow>
     (selected_pkgs i = [] \<or> install_gives str_py w pos i (Exited 0)) \<and>
     (case build_env (env i) (selected_pkgs i) (if pass_env opts then os_environ w else []) of
        Inl _ \<Rightarrow> False
      | Inr env' \<Rightarrow> execute w pos (command_call str_py opts i env') = out)"

definition instance_fails ::
    "('py \<Rightarrow> string) \<Rightarrow> world \<Rightarrow> 'py run_options \<Rightarrow> nat \<Rightarrow> 'py VenvInstance \<Rightarrow> int \<Rightarrow> bool"
where
  "instance_fails str_py w opts pos i c \<longleftrightarrow>
     c \<noteq> 0 \<and>
     (clone_gives str_py w pos i (Exited c) \<or> install_gives str_py w pos i (Exited c) \<or>
      command_gives str_py w opts pos i (Exited c))"

definition interrupted ::
    "('py \<Rightarrow> string) \<Rightarrow> world \<Rightarrow> 'py run_options \<Rightarrow> nat \<Rightarrow> 'py VenvInstance \<Rightarrow> bool" where
  "interrupted str_py w opts pos i \<longleftrightarrow>
     clone_gives str_py w pos i (Raised Interrupt) \<or>
     install_gives str_py w pos i (Raised Interrupt) \<or>
     command_gives str_py w opts pos i (Raised Interrupt)"

lemmas gives_defs = clone_gives_def install_gives_def command_gives_def install_call_def
  command_call_def

lemma prepare_venv_clone:
  "clone_gives str_py w pos i out \<Longrightarrow> out \<noteq> Exited 0 \<Longrightarrow>
   prepare_venv str_py w pos i =
     Inl (case out of Exited c \<Rightarrow> CmdFailure c | Raised f \<Rightarrow> exn_of f)"
  by (cases out) (simp_all add: clone_gives_def prepare_venv_def run_cmd_def)

lemma prepare_venv_install:
  "install_gives str_py w pos i out \<Longrightarrow> out \<noteq> Exited 0 \<Longrightarrow>
   prepare_venv str_py w pos i =
     Inl (case out of Exited c \<Rightarrow> CmdFailure c | Raised f \<Rightarrow> exn_of f)"
  by (cases out)
    (simp_all add: install_gives_def install_call_def clone_gives_def prepare_venv_def run_cmd_def
      run_cmd_venv_def)

lemma prepare_venv_done:
  "selected_pkgs i = [] \<or> install_gives str_py w pos i (Exited 0) \<Longrightarrow>
   prepare_venv str_py w pos i = Inr ()"
  by (auto simp: install_gives_def install_call_def clone_gives_def prepare_venv_def run_cmd_def
      run_cmd_venv_def)

lemma try_body_command:
  assumes "command_gives str_py w opts pos i out"
  shows "try_body str_py w opts pos i =
     (case out of Exited c \<Rightarrow> if c \<noteq> 0 then Inl (CmdFailure c) else Inr ()
      | Raised f \<Rightarrow> Inl (exn_of f))"
proof -
  from assms have prep: "prepare_venv str_py w pos i = Inr ()"
    by (intro prepare_venv_done) (simp add: command_gives_def)
  from assms obtain env' where
    env: "build_env (env i) (selected_pkgs i) (if pass_env opts then os_environ w else []) = Inr env'"
    and out: "execute w pos (command_call str_py opts i env') = out"
    by (auto simp: command_gives_def split: sum.splits)
  show ?thesis
    using out by (simp add: try_body_def prep env run_cmd_venv_def run_cmd_def command_call_def)
qed

lemma try_body_fails:
  assumes "instance_fails str_py w opts pos i c"
  shows "try_body str_py w opts pos i = Inl (CmdFailure c)"
proof -
  from assms have c: "c \<noteq> 0" by (simp add: instance_fails_def)
  from assms consider "clone_gives str_py w pos i (Exited c)"
    | "install_gives str_py w pos i (Exited c)" | "command_gives str_py w opts pos i (Exited c)"
    by (auto simp: instance_fails_def)
  then show ?thesis
  proof cases
    case 1
    from prepare_venv_clone [OF 1] c show ?thesis by (simp add: try_body_def)
  next
    case 2
    from prepare_venv_install [OF 2] c show ?thesis by (simp add: try_body_def)
  next
    case 3
    from try_body_command [OF 3] c show ?thesis by simp
  qed
qed

lemma try_body_succeeds:
  "command_gives str_py w opts pos i (Exited 0) \<Longrightarrow> try_body str_py w opts pos i = Inr ()"
  by (simp add: try_body_command)

lemma try_body_interrupted:
  assumes "interrupted str_py w opts pos i"
  shows "try_body str_py w opts pos i = Inl KeyboardInterrupt"
proof -
  from assms consider "clone_gives str_py w pos i (Raised Interrupt)"
    | "install_gives str_py w pos i (Raised Interrupt)"
    | "command_gives str_py w opts pos i (Raised Interrupt)"
    by (auto simp: interrupted_def)
  then show ?thesis
  proof cases
    case 1
    from prepare_venv_clone [OF 1] show ?thesis by (simp add: try_body_def exn_of_def)
  next
    case 2
    from prepare_venv_install [OF 2] show ?thesis by (simp add: try_body_def exn_of_def)
  next
    case 3
    from try_body_command [OF 3] show ?thesis by (simp add: exn_of_def)
  qed
qed

lemma try_body_failure_code:
  assumes "try_body str_py w opts pos i = Inl (CmdFailure c)"
  shows "c \<noteq> 0"
proof
  assume "c = 0"
  have cmd: "run_cmd f call \<noteq> Inl (CmdFailure 0)" for f call
    by (auto simp: run_cmd_def exn_of_def split: outcome.splits fault.splits if_splits)
  have env: "build_env vs p e \<noteq> Inl (CmdFailure 0)" for vs p e
    by (induction vs p e rule: build_env.induct)
       (auto split: env_val.splits call_result.splits option.splits)
  from assms \<open>c = 0\<close> show False
    by (auto simp: try_body_def prepare_venv_def run_cmd_venv_def env cmd
        split: sum.splits if_splits)
qed

lemma run_instance_code_zero:
  "code (fst (run_instance str_py w opts pos i)) = 0 \<longleftrightarrow>
   try_body str_py w opts pos i = Inr ()"
proof (cases "try_body str_py w opts pos i")
  case (Inl e)
  then show ?thesis
    using try_body_failure_code [of str_py w opts pos i]
    by (cases e) (auto simp: run_instance_def Let_def new_result_def)
next
  case (Inr u)
  then show ?thesis by (simp add: run_instance_def Let_def)
qed

lemma run_instance_fails:
  "instance_fails str_py w opts pos i c \<Longrightarrow>
   run_instance str_py w opts pos i = ((new_result str_py i)\<lparr>code := c\<rparr>, Continue)"
  by (simp add: run_instance_def try_body_fails)

lemma run_instance_succeeds:
  "command_gives str_py w opts pos i (Exited 0) \<Longrightarrow>
   run_instance str_py w opts pos i = ((new_result str_py i)\<lparr>code := 0\<rparr>, Continue)"
  by (simp add: run_instance_def try_body_succeeds)

lemma run_instance_interrupted:
  "interrupted str_py w opts pos i \<Longrightarrow>
   run_instance str_py w opts pos i = ((new_result str_py i)\<lparr>code := 1\<rparr>, Break)"
  by (simp add: run_instance_def try_body_interrupted)

lemma run_loop_taken:
  "taken opts i \<Longrightarrow>
   run_loop str_py w opts pos (i # rest) acc =
     (case run_instance str_py w opts pos i of
        (result, Continue) \<Rightarrow> run_loop str_py w opts (Suc pos) rest (acc @ [result])
      | (result, Break) \<Rightarrow> (acc @ [result], Break)
      | (result, Exit) \<Rightarrow> (acc @ [result], Exit))"
  by (auto simp: taken_def)

lemma run_loop_acc:
  "run_loop str_py w opts pos is acc =
     (acc @ fst (run_loop str_py w opts pos is []), snd (run_loop str_py w opts pos is []))"
proof (induction "is" arbitrary: pos acc)
  case Nil
  then show ?case by simp
next
  case (Cons i rest)
  show ?case
  proof (cases "taken opts i")
    case False
    then show ?thesis using Cons.IH [of "Suc pos" acc] by (simp add: taken_def)
  next
    case True
    obtain r ctl where ri: "run_instance str_py w opts pos i = (r, ctl)" by (cases "run_instance str_py w opts pos i")
    show ?thesis
      using Cons.IH [of "Suc pos" "acc @ [r]"] Cons.IH [of "Suc pos" "[r]"]
      by (cases ctl) (simp_all add: run_loop_taken [OF True] ri del: run_loop.simps(2))
  qed
qed

lemma run_loop_append:
  "snd (run_loop str_py w opts pos xs acc) = Continue \<Longrightarrow>
   run_loop str_py w opts pos (xs @ ys) acc =
     run_loop str_py w opts (pos + length xs) ys (fst (run_loop str_py w opts pos xs acc))"
proof (induction xs arbitrary: pos acc)
  case Nil
  then show ?case by simp
next
  case (Cons i rest)
  show ?case
  proof (cases "taken opts i")
    case False
    then show ?thesis using Cons.IH [of "Suc pos" acc] Cons.prems by (simp add: taken_def)
  next
    case True
    obtain r ctl where ri: "run_instance str_py w opts pos i = (r, ctl)" by (cases "run_instance str_py w opts pos i")
    show ?thesis
      using Cons.IH [of "Suc pos" "acc @ [r]"] Cons.prems
      by (cases ctl) (simp_all add: run_loop_taken [OF True] ri del: run_loop.simps(2))
  qed
qed

lemma run_loop_exit_has_failure:
  "snd (run_loop str_py w opts pos is acc) = Exit \<Longrightarrow>
   \<exists>r\<in>set (fst (run_loop str_py w opts pos is acc)). code r \<noteq> 0"
proof (induction "is" arbitrary: pos acc)
  case Nil
  then show ?case by simp
next
  case (Cons i rest)
  show ?case
  proof (cases "taken opts i")
    case False
    then show ?thesis using Cons.IH [of "Suc pos" acc] Cons.prems by (simp add: taken_def)
  next
    case True
    obtain r ctl where ri: "run_instance str_py w opts pos i = (r, ctl)" by (cases "run_instance str_py w opts pos i")
    have exit_code: "ctl = Exit \<Longrightarrow> code r = 1"
      using ri by (auto simp: run_instance_def Let_def new_result_def split: sum.splits exn.splits)
    show ?thesis
      using Cons.IH [of "Suc pos" "acc @ [r]"] Cons.prems exit_code
      by (cases ctl) (simp_all add: run_loop_taken [OF True] ri del: run_loop.simps(2))
  qed
qed

lemma run_after_provisioning:
  assumes "generate_base_venvs str_py w pattern (recreate_venvs opts) (skip_base_install opts)
             (pythons opts) venv st = Inr st1"
  shows "run str_py w pattern opts venv st =
     (case run_loop str_py w opts 0 (fst (instances pattern [] venv st1)) [] of
        (rs, Exit) \<Rightarrow> \<lparr>results = rs, summary = None, ending = SysExit 1\<rparr>
      | (rs, _) \<Rightarrow>
          \<lparr>results = rs, summary = Some (map (\<lambda>r. (code r \<noteq> 0, r)) rs),
           ending = (if \<exists>r\<in>set rs. code r \<noteq> 0 then SysExit 1 else Returned)\<rparr>)"
  using assms by (simp add: run_def)

lemma generate_base_venvs_store:
  "generate_base_venvs str_py w pattern recreate skip_deps pys' venv st = Inr st1 \<Longrightarrow>
   st1 = snd (instances pattern [] venv st)"
  by (auto simp: generate_base_venvs_def Let_def split: prod.splits sum.splits)

lemma exit_status_of_run:
  assumes "generate_base_venvs str_py w pattern (recreate_venvs opts) (skip_base_install opts)
             (pythons opts) venv st = Inr st1"
  shows "exit_status (ending (run str_py w pattern opts venv st)) = 0 \<longleftrightarrow>
         (\<forall>r\<in>set (results (run str_py w pattern opts venv st)). code r = 0)"
proof -
  obtain rs ctl where loop: "run_loop str_py w opts 0 (fst (instances pattern [] venv st1)) [] = (rs, ctl)"
    by (cases "run_loop str_py w opts 0 (fst (instances pattern [] venv st1)) []")
  show ?thesis
  proof (cases "ctl = Exit")
    case True
    with loop run_loop_exit_has_failure [of str_py w opts 0 "fst (instances pattern [] venv st1)" "[]"]
    have "\<exists>r\<in>set rs. code r \<noteq> 0" by simp
    with True loop show ?thesis
      by (simp add: run_after_provisioning [OF assms] exit_status_def)
  next
    case False
    with loop show ?thesis
      by (cases ctl) (auto simp: run_after_provisioning [OF assms] exit_status_def)
  qed
qed

text \<open>
  Claim C1, as amended. A failure of an instance (the copy of the base environment, the
  installation of its packages or its command exits with a code other than zero) is
  recorded as the result of that instance with that code, and the loop goes on with the
  next instance. With three instances of which only the second fails, by its command,
  \<open>run\<close> leaves three results, the first and third with code 0 and the second with the
  code of its command, the summary marks the second alone as failed, and the exit status
  is 1. When the provisioning of the base environments has not ended the process, the
  exit status of the process is zero exactly when every result has code zero.
\<close>

theorem instance_failure_is_contained:
  "(taken opts i \<and> instance_fails str_py w opts pos i c \<longrightarrow>
      c \<noteq> 0 \<and>
      run_loop str_py w opts pos (i # rest) acc =
        run_loop str_py w opts (Suc pos) rest (acc @ [(new_result str_py i)\<lparr>code := c\<rparr>])) \<and>
   (generate_base_venvs str_py w pattern (recreate_venvs opts) (skip_base_install opts)
      (pythons opts) venv st = Inr st' \<and>
    fst (instances pattern [] venv st') = [first, second, third] \<and>
    taken opts first \<and> taken opts second \<and> taken opts third \<and>
    command_gives str_py w opts 0 first (Exited 0) \<and>
    command_gives str_py w opts 1 second (Exited failed) \<and> failed \<noteq> 0 \<and>
    command_gives str_py w opts 2 third (Exited 0) \<longrightarrow>
      results (run str_py w pattern opts venv st) =
        [(new_result str_py first)\<lparr>code := 0\<rparr>, (new_result str_py second)\<lparr>code := failed\<rparr>,
         (new_result str_py third)\<lparr>code := 0\<rparr>] \<and>
      summary (run str_py w pattern opts venv st) =
        Some [(False, (new_result str_py first)\<lparr>code := 0\<rparr>),
              (True, (new_result str_py second)\<lparr>code := failed\<rparr>),
              (False, (new_result str_py third)\<lparr>code := 0\<rparr>)] \<and>
      exit_status (ending (run str_py w pattern opts venv st)) = 1) \<and>
   (generate_base_venvs str_py w pattern (recreate_venvs opts) (skip_base_install opts)
      (pythons opts) venv st = Inr st' \<longrightarrow>
      (exit_status (ending (run str_py w pattern opts venv st)) = 0 \<longleftrightarrow>
       (\<forall>r\<in>set (results (run str_py w pattern opts venv st)). code r = 0)))"
proof (intro conjI impI)
  assume a: "taken opts i \<and> instance_fails str_py w opts pos i c"
  then show "c \<noteq> 0" by (simp add: instance_fails_def)
  from a have t: "taken opts i" and f: "instance_fails str_py w opts pos i c" by simp_all
  show "run_loop str_py w opts pos (i # rest) acc =
      run_loop str_py w opts (Suc pos) rest (acc @ [(new_result str_py i)\<lparr>code := c\<rparr>])"
    by (simp add: run_loop_taken [OF t] run_instance_fails [OF f] del: run_loop.simps(2))
next
  assume a: "generate_base_venvs str_py w pattern (recreate_venvs opts) (skip_base_install opts)
      (pythons opts) venv st = Inr st' \<and>
    fst (instances pattern [] venv st') = [first, second, third] \<and>
    taken opts first \<and> taken opts second \<and> taken opts third \<and>
    command_gives str_py w opts 0 first (Exited 0) \<and>
    command_gives str_py w opts 1 second (Exited failed) \<and> failed \<noteq> 0 \<and>
    command_gives str_py w opts 2 third (Exited 0)"
  then have t: "taken opts first" "taken opts second" "taken opts third"
    and r1: "run_instance str_py w opts 0 first = ((new_result str_py first)\<lparr>code := 0\<rparr>, Continue)"
    and r2: "run_instance str_py w opts (Suc 0) second = ((new_result str_py second)\<lparr>code := failed\<rparr>, Continue)"
    and r3: "run_instance str_py w opts (Suc (Suc 0)) third =
               ((new_result str_py third)\<lparr>code := 0\<rparr>, Continue)"
    by (simp_all add: run_instance_succeeds run_instance_fails instance_fails_def numeral_2_eq_2)
  have loop: "run_loop str_py w opts 0 [first, second, third] [] =
      ([(new_result str_py first)\<lparr>code := 0\<rparr>, (new_result str_py second)\<lparr>code := failed\<rparr>,
        (new_result str_py third)\<lparr>code := 0\<rparr>], Continue)"
    by (simp add: run_loop_taken t r1 r2 r3 del: run_loop.simps(2))
  from a have run: "run str_py w pattern opts venv st =
     (case run_loop str_py w opts 0 [first, second, third] [] of
        (rs, Exit) \<Rightarrow> \<lparr>results = rs, summary = None, ending = SysExit 1\<rparr>
      | (rs, _) \<Rightarrow>
          \<lparr>results = rs, summary = Some (map (\<lambda>r. (code r \<noteq> 0, r)) rs),
           ending = (if \<exists>r\<in>set rs. code r \<noteq> 0 then SysExit 1 else Returned)\<rparr>)"
    using run_after_provisioning [of str_py w pattern opts venv st st'] by simp
  from a have nz: "failed \<noteq> 0" by simp
  show "results (run str_py w pattern opts venv st) =
        [(new_result str_py first)\<lparr>code := 0\<rparr>, (new_result str_py second)\<lparr>code := failed\<rparr>,
         (new_result str_py third)\<lparr>code := 0\<rparr>]"
    unfolding run loop by simp
  show "summary (run str_py w pattern opts venv st) =
        Some [(False, (new_result str_py first)\<lparr>code := 0\<rparr>),
              (True, (new_result str_py second)\<lparr>code := failed\<rparr>),
              (False, (new_result str_py third)\<lparr>code := 0\<rparr>)]"
    using nz unfolding run loop by simp
  show "exit_status (ending (run str_py w pattern opts venv st)) = 1"
    using nz unfolding run loop by (simp add: exit_status_def)
next
  assume "generate_base_venvs str_py w pattern (recreate_venvs opts) (skip_base_install opts)
      (pythons opts) venv st = Inr st'"
  then show "exit_status (ending (run str_py w pattern opts venv st)) = 0 \<longleftrightarrow>
       (\<forall>r\<in>set (results (run str_py w pattern opts venv st)). code r = 0)"
    by (rule exit_status_of_run)
qed

text \<open>
  A tree with three tests under a root that gives the interpreter, and two worlds: in
  one the commands of the second instance exit with 2, in the other they are interrupted.
\<close>

definition three_tests :: "string Venv" where
  "three_tests = Venv None None [''3.8''] Default Default
     [Venv (Some ''one'') (Some ''c1'') [] Default Default [],
      Venv (Some ''two'') (Some ''c2'') [] Default Default [],
      Venv (Some ''three'') (Some ''c3'') [] Default Default []]"

definition test_instance :: "string \<Rightarrow> string \<Rightarrow> string VenvInstance" where
  "test_instance n c = \<lparr>VenvInstance.name = Some n, py = ''3.8'', command = c, env = [], pkgs = []\<rparr>"

definition second_fails :: world where
  "second_fails = quiet_world\<lparr>execute := (\<lambda>pos _. if pos = 1 then Exited 2 else Exited 0)\<rparr>"

definition second_interrupted :: world where
  "second_interrupted =
     quiet_world\<lparr>execute := (\<lambda>pos _. if pos = 1 then Raised Interrupt else Exited 0)\<rparr>"

lemma three_tests_instances:
  "instances (\<lambda>_. True) [] three_tests empty_store =
     ([test_instance ''one'' ''c1'', test_instance ''two'' ''c2'', test_instance ''three'' ''c3''],
      empty_store)"
  by (simp add: three_tests_def test_instance_def walk_defs)

lemma three_tests_provisioned:
  "provision w = (\<lambda>_. Exited 0) \<Longrightarrow> isdir w = (\<lambda>_. True) \<Longrightarrow>
   generate_base_venvs (\<lambda>v. v) w (\<lambda>_. True) (recreate_venvs plain_options)
     (skip_base_install plain_options) (pythons plain_options) three_tests empty_store =
   Inr empty_store"
  by (simp add: generate_base_venvs_def three_tests_instances test_instance_def plain_options_def
      create_base_venv_def run_cmd_venv_def run_cmd_def)

lemma test_instance_command:
  "execute w pos (command_call (\<lambda>v. v) plain_options (test_instance n c) []) = out \<Longrightarrow>
   command_gives (\<lambda>v. v) w plain_options pos (test_instance n c) out"
  by (simp add: command_gives_def test_instance_def selected_pkgs_def plain_options_def)

text \<open>
  Three tests, the command of the second exits with 2: three results with codes 0, 2
  and 0, and exit status 1.
\<close>

theorem instance_failure_is_contained_witness:
  "map code (results (run (\<lambda>v. v) second_fails (\<lambda>_. True) plain_options three_tests empty_store)) =
     [0, 2, 0] \<and>
   exit_status (ending (run (\<lambda>v. v) second_fails (\<lambda>_. True) plain_options three_tests empty_store)) = 1"
proof -
  have prov: "generate_base_venvs (\<lambda>v. v) second_fails (\<lambda>_. True) (recreate_venvs plain_options)
      (skip_base_install plain_options) (pythons plain_options) three_tests empty_store =
      Inr empty_store"
    by (rule three_tests_provisioned) (simp_all add: second_fails_def quiet_world_def)
  have insts: "fst (instances (\<lambda>_. True) [] three_tests empty_store) =
      [test_instance ''one'' ''c1'', test_instance ''two'' ''c2'', test_instance ''three'' ''c3'']"
    by (simp add: three_tests_instances)
  have taken: "taken plain_options (test_instance n c)" for n c
    by (simp add: taken_def plain_options_def)
  have cmds: "command_gives (\<lambda>v. v) second_fails plain_options 0 (test_instance ''one'' ''c1'') (Exited 0)"
    "command_gives (\<lambda>v. v) second_fails plain_options 1 (test_instance ''two'' ''c2'') (Exited 2)"
    "command_gives (\<lambda>v. v) second_fails plain_options 2 (test_instance ''three'' ''c3'') (Exited 0)"
    by (rule test_instance_command, simp add: second_fails_def)+
  from instance_failure_is_contained
    [where str_py = "\<lambda>v. v" and w = second_fails and pattern = "\<lambda>_. True" and opts = plain_options
       and venv = three_tests and st = empty_store and st' = empty_store
       and first = "test_instance ''one'' ''c1''" and second = "test_instance ''two'' ''c2''"
       and third = "test_instance ''three'' ''c3''" and failed = 2]
    prov insts taken cmds
  have "results (run (\<lambda>v. v) second_fails (\<lambda>_. True) plain_options three_tests empty_store) =
        [(new_result (\<lambda>v. v) (test_instance ''one'' ''c1''))\<lparr>code := 0\<rparr>,
         (new_result (\<lambda>v. v) (test_instance ''two'' ''c2''))\<lparr>code := 2\<rparr>,
         (new_result (\<lambda>v. v) (test_instance ''three'' ''c3''))\<lparr>code := 0\<rparr>]"
    and "exit_status (ending (run (\<lambda>v. v) second_fails (\<lambda>_. True) plain_options three_tests
          empty_store)) = 1"
    by simp_all
  then show ?thesis by simp
qed

text \<open>
  The last part of the claim as it stands fails when the installation of the project
  into a base environment fails: \<open>generate_base_venvs\<close> calls \<open>sys.exit(1)\<close> before the
  loop, so there is no result, hence none with a code other than zero, and the exit status
  is 1.
\<close>

theorem failed_base_install_exits_without_results:
  "results (run (\<lambda>v. v) (quiet_world\<lparr>provision := (\<lambda>_. Exited 1)\<rparr>) (\<lambda>_. True) plain_options
      three_tests empty_store) = [] \<and>
   exit_status (ending (run (\<lambda>v. v) (quiet_world\<lparr>provision := (\<lambda>_. Exited 1)\<rparr>) (\<lambda>_. True)
      plain_options three_tests empty_store)) = 1"
  by (simp add: run_def generate_base_venvs_def three_tests_instances test_instance_def
      plain_options_def quiet_world_def create_base_venv_def run_cmd_venv_def run_cmd_def
      exit_status_def)

text \<open>
  Claim C9. When the user interrupts one of the commands of an instance that the loop has
  reached, the result of that instance gets the code 1, the loop ends there, whatever
  instances come after, and \<open>run\<close> prints the summary of the results collected before
  together with that of the interrupted instance, and exits with status 1.
\<close>

theorem interrupt_stops_the_loop_and_keeps_results:
  assumes "generate_base_venvs str_py w pattern (recreate_venvs opts) (skip_base_install opts)
             (pythons opts) venv st = Inr st'"
    and "fst (instances pattern [] venv st') = before @ i # after"
    and "snd (run_loop str_py w opts 0 before []) = Continue"
    and "taken opts i"
    and "interrupted str_py w opts (length before) i"
  shows "run_loop str_py w opts 0 (before @ i # after) [] =
           (fst (run_loop str_py w opts 0 before []) @ [(new_result str_py i)\<lparr>code := 1\<rparr>], Break) \<and>
         results (run str_py w pattern opts venv st) =
           fst (run_loop str_py w opts 0 before []) @ [(new_result str_py i)\<lparr>code := 1\<rparr>] \<and>
         summary (run str_py w pattern opts venv st) =
           Some (map (\<lambda>r. (code r \<noteq> 0, r))
             (fst (run_loop str_py w opts 0 before []) @ [(new_result str_py i)\<lparr>code := 1\<rparr>])) \<and>
         exit_status (ending (run str_py w pattern opts venv st)) = 1"
proof -
  have loop: "run_loop str_py w opts 0 (before @ i # after) [] =
      (fst (run_loop str_py w opts 0 before []) @ [(new_result str_py i)\<lparr>code := 1\<rparr>], Break)"
    using assms(4,5)
    by (simp add: run_loop_append [OF assms(3)] run_loop_taken run_instance_interrupted
        del: run_loop.simps(2))
  with assms(2) show ?thesis
    by (simp add: run_after_provisioning [OF assms(1)] exit_status_def)
qed

text \<open>
  Three tests, the command of the second is interrupted: two results with codes 0 and 1,
  both in the summary, none for the third test, and exit status 1.
\<close>

theorem interrupt_stops_the_loop_and_keeps_results_witness:
  "map code (results (run (\<lambda>v. v) second_interrupted (\<lambda>_. True) plain_options three_tests
      empty_store)) = [0, 1] \<and>
   map (inst \<circ> snd) (case_option [] id (summary (run (\<lambda>v. v) second_interrupted (\<lambda>_. True)
      plain_options three_tests empty_store))) =
     [test_instance ''one'' ''c1'', test_instance ''two'' ''c2''] \<and>
   exit_status (ending (run (\<lambda>v. v) second_interrupted (\<lambda>_. True) plain_options three_tests
      empty_store)) = 1"
proof -
  have prov: "generate_base_venvs (\<lambda>v. v) second_interrupted (\<lambda>_. True)
      (recreate_venvs plain_options) (skip_base_install plain_options) (pythons plain_options)
      three_tests empty_store = Inr empty_store"
    by (rule three_tests_provisioned) (simp_all add: second_interrupted_def quiet_world_def)
  have insts: "fst (instances (\<lambda>_. True) [] three_tests empty_store) =
      [test_instance ''one'' ''c1''] @ test_instance ''two'' ''c2'' # [test_instance ''three'' ''c3'']"
    by (simp add: three_tests_instances)
  have taken: "taken plain_options (test_instance n c)" for n c
    by (simp add: taken_def plain_options_def)
  have one: "command_gives (\<lambda>v. v) second_interrupted plain_options 0
      (test_instance ''one'' ''c1'') (Exited 0)"
    by (rule test_instance_command) (simp add: second_interrupted_def)
  have before: "run_loop (\<lambda>v. v) second_interrupted plain_options 0 [test_instance ''one'' ''c1''] [] =
      ([(new_result (\<lambda>v. v) (test_instance ''one'' ''c1''))\<lparr>code := 0\<rparr>], Continue)"
    by (simp add: run_loop_taken [OF taken] run_instance_succeeds [OF one] del: run_loop.simps(2))
  have int: "interrupted (\<lambda>v. v) second_interrupted plain_options
      (length [test_instance ''one'' ''c1'']) (test_instance ''two'' ''c2'')"
    unfolding interrupted_def
    by (intro disjI2 test_instance_command) (simp add: second_interrupted_def)
  from interrupt_stops_the_loop_and_keeps_results [OF prov insts _ taken int] before
  show ?thesis by (simp add: new_result_def)
qed

end
